theory Spec2Isabelle
  imports Main "HOL-Library.Word" "HOL-Library.Sublist"
begin

section \<open>mod\_logfile\_domain: per-domain log files behind a bounded handle cache\<close>

text \<open>
  A shallow embedding of \<^verbatim>\<open>src/mod_logfile_domain/mod_logfile_domain.c\<close>.
  Every C function of the module is a HOL function of the same name. The module's
  global variables form the record \<open>module_state\<close>; everything the module asks of
  the FreeSWITCH host (files, the host's own log, the clock, the hash API applied to a
  null table) is a field of the record \<open>host\<close>, acting on an arbitrary world \<open>'w\<close>.
  A C string is the list of its bytes before the terminating NUL; a \<^verbatim>\<open>char *\<close>
  that may be \<^verbatim>\<open>NULL\<close> is a \<open>string option\<close>. The model is sequential: mutexes
  are taken and released around the sections shown, and only the existence of an
  entry's mutex (\<open>file_lock\<close>) is recorded.
\<close>

subsection \<open>Strings\<close>

text \<open>\<^verbatim>\<open>zstr(s)\<close>: the pointer is null or the string is empty.\<close>

definition zstr :: "string option \<Rightarrow> bool" where
  "zstr s = (case s of None \<Rightarrow> True | Some x \<Rightarrow> x = [])"

text \<open>\<^verbatim>\<open>isspace\<close> in the C locale: space, and the controls HT, LF, VT, FF, CR.\<close>

definition isspace :: "char \<Rightarrow> bool" where
  "isspace c = (c = CHR 0x20 \<or> c = CHR 0x09 \<or> c = CHR 0x0A \<or> c = CHR 0x0B
                \<or> c = CHR 0x0C \<or> c = CHR 0x0D)"

text \<open>\<^verbatim>\<open>isprint\<close> in the C locale: the codes 0x20 to 0x7E. The module includes
  \<^verbatim>\<open>ctype.h\<close> and its comment names printability, but no code calls it.\<close>

definition isprint :: "char \<Rightarrow> bool" where
  "isprint c = (32 \<le> (of_char c :: nat) \<and> (of_char c :: nat) \<le> 126)"

text \<open>\<^verbatim>\<open>strstr(hay, needle)\<close>: the suffix of \<open>hay\<close> that starts at the first
  occurrence of \<open>needle\<close>, or \<^verbatim>\<open>NULL\<close>.\<close>

fun strstr :: "string \<Rightarrow> string \<Rightarrow> string option" where
  "strstr [] needle = (if needle = [] then Some [] else None)"
| "strstr (c # cs) needle =
     (if prefix needle (c # cs) then Some (c # cs) else strstr cs needle)"

text \<open>\<^verbatim>\<open>%d\<close> of a C \<^verbatim>\<open>int\<close>.\<close>

fun string_of_nat :: "nat \<Rightarrow> string" where
  "string_of_nat n =
     (if n < 10 then [''0123456789'' ! n]
      else string_of_nat (n div 10) @ [''0123456789'' ! (n mod 10)])"

definition string_of_int :: "int \<Rightarrow> string" where
  "string_of_int i = (if i < 0 then CHR ''-'' # string_of_nat (nat (- i)) else string_of_nat (nat i))"

subsection \<open>Host interface\<close>

datatype switch_status_t = SWITCH_STATUS_SUCCESS | SWITCH_STATUS_FALSE

datatype switch_log_level_t =
    SWITCH_LOG_DEBUG | SWITCH_LOG_INFO | SWITCH_LOG_NOTICE | SWITCH_LOG_WARNING
  | SWITCH_LOG_ERROR | SWITCH_LOG_CRIT | SWITCH_LOG_ALERT | SWITCH_LOG_CONSOLE

datatype fopen_flag =
    SWITCH_FOPEN_CREATE | SWITCH_FOPEN_READ | SWITCH_FOPEN_WRITE
  | SWITCH_FOPEN_APPEND | SWITCH_FOPEN_TRUNC

text \<open>An argument of a \<^verbatim>\<open>printf\<close>-style call to the host's log.\<close>

datatype fmt_arg = S string | I int

text \<open>A \<^verbatim>\<open>switch_file_t *\<close> returned by the host.\<close>

type_synonym switch_file = nat

text \<open>\<^verbatim>\<open>switch_size_t\<close>, an unsigned 64-bit count.\<close>

type_synonym switch_size_t = "64 word"

text \<open>A channel as the module sees it: its variables and its UUID.\<close>

record switch_channel =
  switch_channel_get_variable :: "string \<Rightarrow> string option"
  switch_channel_get_uuid :: "string option"

record switch_core_session =
  switch_core_session_get_channel :: "switch_channel option"

text \<open>The fields of a log node the module reads (\<^verbatim>\<open>file\<close>, \<^verbatim>\<open>func\<close>,
  \<^verbatim>\<open>line\<close>, \<^verbatim>\<open>userdata\<close>); the module casts \<^verbatim>\<open>userdata\<close> to a session.\<close>

record switch_log_node =
  node_file :: "string option"
  node_func :: "string option"
  node_line :: int
  node_userdata :: "switch_core_session option"

text \<open>The optional \<^verbatim>\<open>switch_log_node_render\<close>: its status (\<open>True\<close> for success)
  and the text it leaves in the buffer.\<close>

type_synonym switch_log_node_render_fn = "switch_log_node \<Rightarrow> bool \<times> string"

text \<open>What can go wrong below the module: the host's hash API handed a null table.\<close>

datatype fault = Null_hash_table

text \<open>
  The host. \<open>switch_file_open\<close> gives \<open>Inl\<close> of a status code other than success or
  \<open>Inr\<close> of the handle; \<open>switch_file_write\<close> gives its status and the value it leaves
  in \<^verbatim>\<open>*len\<close>. \<open>strftime_now\<close> is \<^verbatim>\<open>switch_time_now\<close>, \<^verbatim>\<open>switch_time_exp_lt\<close>
  and \<^verbatim>\<open>switch_strftime_nocheck\<close> with the module's fixed format.
  \<open>null_hash_faults\<close> says whether the host's hash functions fault on a null table
  (otherwise they find nothing and insert nothing).
\<close>

record 'w host =
  switch_file_open :: "string \<Rightarrow> fopen_flag set \<Rightarrow> 'w \<Rightarrow> (int + switch_file) \<times> 'w"
  switch_file_get_size :: "switch_file \<Rightarrow> 'w \<Rightarrow> switch_size_t"
  switch_file_write :: "switch_file \<Rightarrow> string \<Rightarrow> 'w \<Rightarrow> (bool \<times> switch_size_t) \<times> 'w"
  switch_file_close :: "switch_file \<Rightarrow> 'w \<Rightarrow> 'w"
  switch_log_printf :: "switch_log_level_t \<Rightarrow> string \<Rightarrow> fmt_arg list \<Rightarrow> 'w \<Rightarrow> 'w"
  switch_log_bind_logger :: "'w \<Rightarrow> 'w"
  switch_log_unbind_logger :: "'w \<Rightarrow> 'w"
  switch_log_level2str :: "switch_log_level_t \<Rightarrow> string"
  strftime_now :: "'w \<Rightarrow> string"
  log_dir :: string
  SWITCH_PATH_SEPARATOR :: string
  dlsym_render :: "switch_log_node_render_fn option"
  null_hash_faults :: bool

subsection \<open>Module data\<close>

definition DEFAULT_LIMIT :: switch_size_t where
  "DEFAULT_LIMIT = 0xA00000"

definition MAX_DOMAIN_CACHE_SIZE :: int where
  "MAX_DOMAIN_CACHE_SIZE = 256"

record domain_cache_entry_t =
  domain :: string
  log_file :: "switch_file option"
  log_size :: switch_size_t
  roll_size :: switch_size_t
  logfile_path :: string
  file_lock :: bool

text \<open>
  The globals. \<open>domain_hash\<close> is \<open>None\<close> for the null pointer, else the table from key
  to entry pointer in iteration order. An entry pointer is an index into \<open>pool\<close>, the
  entries allocated so far.
\<close>

record module_state =
  domain_hash :: "(string \<times> nat) list option"
  cache_entries :: int
  switch_log_node_render_ptr :: "switch_log_node_render_fn option"
  pool :: "domain_cache_entry_t list"

subsection \<open>Opening a domain's file\<close>

text \<open>\<^verbatim>\<open>open_domain_logfile\<close> (lines 73 to 97): on failure the entry is left as it was.\<close>

definition open_domain_logfile ::
  "'w host \<Rightarrow> domain_cache_entry_t \<Rightarrow> 'w \<Rightarrow> switch_status_t \<times> domain_cache_entry_t \<times> 'w" where
  "open_domain_logfile h entry w =
     (case switch_file_open h (logfile_path entry)
             {SWITCH_FOPEN_CREATE, SWITCH_FOPEN_READ, SWITCH_FOPEN_WRITE, SWITCH_FOPEN_APPEND} w of
        (Inl stat, w1) \<Rightarrow>
          (SWITCH_STATUS_FALSE, entry,
           switch_log_printf h SWITCH_LOG_ERROR
             (''mod_logfile_domain: Failed to open %s (status=%d)\<newline>'')
             [S (logfile_path entry), I stat] w1)
      | (Inr afd, w1) \<Rightarrow>
          (SWITCH_STATUS_SUCCESS,
           entry\<lparr>log_file := Some afd, log_size := switch_file_get_size h afd w1\<rparr>, w1))"

subsection \<open>The host's hash table\<close>

text \<open>The lookup and the insertion on \<open>domain_hash\<close>. A key is compared exactly.
  Inserting drops an older binding of the key first, as the host's duplicate check does;
  the module inserts only after a lookup has missed.\<close>

definition switch_core_hash_find ::
  "'w host \<Rightarrow> (string \<times> nat) list option \<Rightarrow> string \<Rightarrow> fault + nat option" where
  "switch_core_hash_find h hash key =
     (case hash of
        None \<Rightarrow> if null_hash_faults h then Inl Null_hash_table else Inr None
      | Some tbl \<Rightarrow> Inr (map_of tbl key))"

definition switch_core_hash_insert_destructor ::
  "'w host \<Rightarrow> (string \<times> nat) list option \<Rightarrow> string \<Rightarrow> nat
     \<Rightarrow> fault + (string \<times> nat) list option" where
  "switch_core_hash_insert_destructor h hash key val =
     (case hash of
        None \<Rightarrow> if null_hash_faults h then Inl Null_hash_table else Inr None
      | Some tbl \<Rightarrow> Inr (Some (filter (\<lambda>kv. fst kv \<noteq> key) tbl @ [(key, val)])))"

subsection \<open>The cache\<close>

text \<open>
  \<^verbatim>\<open>get_domain_entry\<close> (lines 100 to 158). The result is the entry pointer or
  \<open>None\<close> for \<^verbatim>\<open>NULL\<close>. A new entry is allocated, and so takes its place in
  \<open>pool\<close>, before its file is opened. \<open>new_domain_entry\<close> is lines 127 to 141: the zeroed
  entry with the key copied into its 128 bytes, the limit, the path printed into its 512
  bytes, and the mutex.
\<close>

definition new_domain_entry :: "'w host \<Rightarrow> string \<Rightarrow> domain_cache_entry_t" where
  "new_domain_entry h d =
     \<lparr>domain = take 127 d, log_file = None, log_size = 0, roll_size = DEFAULT_LIMIT,
      logfile_path = take 511 (log_dir h @ SWITCH_PATH_SEPARATOR h @ ''domain_'' @ d @ ''.log''),
      file_lock = True\<rparr>"

definition get_domain_entry ::
  "'w host \<Rightarrow> module_state \<Rightarrow> string option \<Rightarrow> 'w \<Rightarrow> fault + (nat option \<times> module_state \<times> 'w)" where
  "get_domain_entry h st dname w =
     (case dname of
        None \<Rightarrow> Inr (None, st, w)
      | Some d \<Rightarrow>
          if d = [] then Inr (None, st, w)
          else
            (case switch_core_hash_find h (domain_hash st) d of
               Inl flt \<Rightarrow> Inl flt
             | Inr (Some entry) \<Rightarrow> Inr (Some entry, st, w)
             | Inr None \<Rightarrow>
                 if cache_entries st \<ge> MAX_DOMAIN_CACHE_SIZE then
                   Inr (None, st,
                        switch_log_printf h SWITCH_LOG_WARNING
                          (''mod_logfile_domain: Cache full (%d domains)\<newline>'')
                          [I MAX_DOMAIN_CACHE_SIZE] w)
                 else
                   (let entry = length (pool st)
                    in case open_domain_logfile h (new_domain_entry h d) w of
                         (SWITCH_STATUS_FALSE, e1, w1) \<Rightarrow>
                           Inr (None, st\<lparr>pool := pool st @ [e1]\<rparr>, w1)
                       | (SWITCH_STATUS_SUCCESS, e1, w1) \<Rightarrow>
                           (case switch_core_hash_insert_destructor h (domain_hash st) d entry of
                              Inl flt \<Rightarrow> Inl flt
                            | Inr hash' \<Rightarrow>
                                Inr (Some entry,
                                     st\<lparr>domain_hash := hash',
                                        cache_entries := cache_entries st + 1,
                                        pool := pool st @ [e1]\<rparr>,
                                     switch_log_printf h SWITCH_LOG_DEBUG
                                       (''mod_logfile_domain: Created cache entry for domain: %s\<newline>'')
                                       [S d] w1)))))"

subsection \<open>Finding the domain of an event\<close>

text \<open>\<^verbatim>\<open>extract_domain\<close> (lines 161 to 184): the variable's own string is returned.\<close>

definition extract_domain :: "switch_channel option \<Rightarrow> string option" where
  "extract_domain channel =
     (case channel of
        None \<Rightarrow> None
      | Some ch \<Rightarrow>
          if \<not> zstr (switch_channel_get_variable ch ''domain_name'')
          then switch_channel_get_variable ch ''domain_name''
          else if \<not> zstr (switch_channel_get_variable ch ''domain'')
          then switch_channel_get_variable ch ''domain''
          else None)"

text \<open>The copy loop of lines 206 to 208, from \<open>p\<close> with \<open>i\<close> characters already in
  \<^verbatim>\<open>domainbuf[128]\<close>; the result is what the loop appends.\<close>

fun copy_domainbuf :: "string \<Rightarrow> nat \<Rightarrow> string" where
  "copy_domainbuf [] i = []"
| "copy_domainbuf (c # p) i =
     (if \<not> isspace c \<and> i + 1 < 128 then c # copy_domainbuf p (i + 1) else [])"

text \<open>\<^verbatim>\<open>extract_domain_from_msg\<close> (lines 187 to 213).\<close>

definition extract_domain_from_msg :: "string option \<Rightarrow> string option" where
  "extract_domain_from_msg msg =
     (case msg of
        None \<Rightarrow> None
      | Some m \<Rightarrow>
          (case (case strstr m ''domain_name='' of
                   None \<Rightarrow>
                     (case strstr m ''domain='' of
                        None \<Rightarrow> None
                      | Some p \<Rightarrow> Some (drop (length ''domain='') p))
                 | Some p \<Rightarrow> Some (drop (length ''domain_name='') p)) of
             None \<Rightarrow> None
           | Some p \<Rightarrow>
               (let domainbuf = copy_domainbuf p 0
                in if length domainbuf = 0 then None else Some domainbuf)))"

subsection \<open>Writing a line\<close>

text \<open>
  The section of \<^verbatim>\<open>write_domain_log\<close> that runs under the entry's lock (lines 233
  to 260): the first write, and on its failure close, reopen and one more write, whose
  status is not looked at. A successful \<open>open_domain_logfile\<close> has set the handle, so the
  second write always has one (\<open>open_domain_logfile_handle\<close> below).
\<close>

definition write_domain_log_entry ::
  "'w host \<Rightarrow> domain_cache_entry_t \<Rightarrow> string \<Rightarrow> 'w \<Rightarrow> switch_status_t \<times> domain_cache_entry_t \<times> 'w" where
  "write_domain_log_entry h entry log_data w =
     (case (case log_file entry of
              None \<Rightarrow> ((False, word_of_nat (length log_data)), w)
            | Some f \<Rightarrow> switch_file_write h f log_data w) of
        ((True, len), w1) \<Rightarrow>
          (SWITCH_STATUS_SUCCESS, entry\<lparr>log_size := log_size entry + len\<rparr>, w1)
      | ((False, len), w1) \<Rightarrow>
          (let w2 = (case log_file entry of None \<Rightarrow> w1 | Some f \<Rightarrow> switch_file_close h f w1);
               e2 = entry\<lparr>log_file := None\<rparr>
           in case open_domain_logfile h e2 w2 of
                (SWITCH_STATUS_SUCCESS, e3, w3) \<Rightarrow>
                  (case log_file e3 of
                     None \<Rightarrow> (SWITCH_STATUS_SUCCESS, e3, w3)
                   | Some f \<Rightarrow>
                       (case switch_file_write h f log_data w3 of
                          ((ok, len'), w4) \<Rightarrow>
                            (SWITCH_STATUS_SUCCESS, e3\<lparr>log_size := log_size e3 + len'\<rparr>, w4)))
              | (SWITCH_STATUS_FALSE, e3, w3) \<Rightarrow> (SWITCH_STATUS_FALSE, e3, w3)))"

text \<open>\<^verbatim>\<open>write_domain_log\<close> (lines 216 to 261).\<close>

definition write_domain_log ::
  "'w host \<Rightarrow> module_state \<Rightarrow> string option \<Rightarrow> string option \<Rightarrow> 'w
     \<Rightarrow> fault + (switch_status_t \<times> module_state \<times> 'w)" where
  "write_domain_log h st dname log_data w =
     (case (dname, log_data) of
        (Some d, Some ld) \<Rightarrow>
          (case get_domain_entry h st dname w of
             Inl flt \<Rightarrow> Inl flt
           | Inr (None, st1, w1) \<Rightarrow>
               Inr (SWITCH_STATUS_FALSE, st1,
                    switch_log_printf h SWITCH_LOG_WARNING
                      (''mod_logfile_domain: No cache entry for domain: %s\<newline>'') [S d] w1)
           | Inr (Some entry, st1, w1) \<Rightarrow>
               (case write_domain_log_entry h (pool st1 ! entry) ld w1 of
                  (status, e', w2) \<Rightarrow>
                    Inr (status, st1\<lparr>pool := (pool st1)[entry := e']\<rparr>, w2)))
      | _ \<Rightarrow> Inr (SWITCH_STATUS_FALSE, st, w))"

subsection \<open>The logging callback\<close>

text \<open>Lines 281 to 286: the rendered message, empty unless the optional renderer is
  resolved and succeeds. The renderer is given 1024 bytes.\<close>

definition logger_rendered_msg :: "module_state \<Rightarrow> switch_log_node \<Rightarrow> string" where
  "logger_rendered_msg st node =
     (case switch_log_node_render_ptr st of
        None \<Rightarrow> []
      | Some render \<Rightarrow>
          (case render node of (ok, buf) \<Rightarrow> if ok then take 1023 buf else []))"

text \<open>Lines 294 to 301: the channel of the node's session, if any.\<close>

definition logger_channel :: "switch_log_node \<Rightarrow> switch_channel option" where
  "logger_channel node =
     (case node_userdata node of
        None \<Rightarrow> None
      | Some session \<Rightarrow> switch_core_session_get_channel session)"

text \<open>Lines 294 to 309: the domain, from the channel first and from the text only when
  the channel gave none and the rendered message is not empty.\<close>

definition logger_domain :: "switch_channel option \<Rightarrow> string \<Rightarrow> string option" where
  "logger_domain channel rendered_msg =
     (let d = (case channel of None \<Rightarrow> None | Some ch \<Rightarrow> extract_domain (Some ch))
      in if zstr d \<and> rendered_msg \<noteq> [] then
           (case extract_domain_from_msg (Some rendered_msg) of
              None \<Rightarrow> d
            | Some f \<Rightarrow> Some f)
         else d)"

text \<open>Lines 313 to 336: the line, cut to the 2048-byte buffer.\<close>

definition logger_log_line ::
  "'w host \<Rightarrow> 'w \<Rightarrow> switch_log_level_t \<Rightarrow> switch_log_node \<Rightarrow> switch_channel option
     \<Rightarrow> string \<Rightarrow> string" where
  "logger_log_line h w level node channel rendered_msg =
     take 2047
       (strftime_now h w @ '' ['' @ switch_log_level2str h level @ ''] [''
        @ (case node_file node of None \<Rightarrow> ''unknown'' | Some f \<Rightarrow> f) @ '':''
        @ (case node_func node of None \<Rightarrow> ''unknown'' | Some f \<Rightarrow> f) @ '':''
        @ string_of_int (node_line node) @ ''] ''
        @ (if rendered_msg \<noteq> [] then rendered_msg else ''(message)'')
        @ (case channel of
             None \<Rightarrow> []
           | Some ch \<Rightarrow>
               '' ['' @ (case switch_channel_get_uuid ch of None \<Rightarrow> ''unknown'' | Some u \<Rightarrow> u)
                 @ '']'')
        @ ''\<newline>'')"

text \<open>\<^verbatim>\<open>mod_logfile_domain_logger\<close> (lines 265 to 342).\<close>

definition mod_logfile_domain_logger ::
  "'w host \<Rightarrow> module_state \<Rightarrow> switch_log_node option \<Rightarrow> switch_log_level_t \<Rightarrow> 'w
     \<Rightarrow> fault + (switch_status_t \<times> module_state \<times> 'w)" where
  "mod_logfile_domain_logger h st node_ptr level w =
     (case node_ptr of
        None \<Rightarrow> Inr (SWITCH_STATUS_SUCCESS, st, w)
      | Some node \<Rightarrow>
          (let rendered_msg = logger_rendered_msg st node
           in if (case node_file node of
                    None \<Rightarrow> False
                  | Some f \<Rightarrow> strstr f ''mod_logfile_domain'' \<noteq> None)
              then Inr (SWITCH_STATUS_SUCCESS, st, w)
              else
                (let channel = logger_channel node;
                     d = logger_domain channel rendered_msg
                 in if \<not> zstr d then
                      (case write_domain_log h st d
                              (Some (logger_log_line h w level node channel rendered_msg)) w of
                         Inl flt \<Rightarrow> Inl flt
                       | Inr (status, st1, w1) \<Rightarrow> Inr (SWITCH_STATUS_SUCCESS, st1, w1))
                    else Inr (SWITCH_STATUS_SUCCESS, st, w))))"

subsection \<open>Lifecycle\<close>

text \<open>\<^verbatim>\<open>cleanup_domain_entry\<close> (lines 58 to 69), the destructor the host runs on
  every value when it destroys the table: it closes a handle that is still open.
  Destroying the mutex leaves no trace in the world.\<close>

definition cleanup_domain_entry :: "'w host \<Rightarrow> domain_cache_entry_t option \<Rightarrow> 'w \<Rightarrow> 'w" where
  "cleanup_domain_entry h ptr w =
     (case ptr of
        None \<Rightarrow> w
      | Some entry \<Rightarrow>
          (case log_file entry of None \<Rightarrow> w | Some f \<Rightarrow> switch_file_close h f w))"

text \<open>The loop of \<^verbatim>\<open>close_all_domain_logs\<close> (lines 354 to 366) over the table.\<close>

fun close_entries ::
  "'w host \<Rightarrow> (string \<times> nat) list \<Rightarrow> domain_cache_entry_t list \<Rightarrow> 'w
     \<Rightarrow> domain_cache_entry_t list \<times> 'w" where
  "close_entries h [] pl w = (pl, w)"
| "close_entries h ((var, val) # hi) pl w =
     (if file_lock (pl ! val) then
        (case log_file (pl ! val) of
           None \<Rightarrow> close_entries h hi pl w
         | Some f \<Rightarrow>
             close_entries h hi (pl[val := (pl ! val)\<lparr>log_file := None\<rparr>]) (switch_file_close h f w))
      else close_entries h hi pl w)"

text \<open>\<^verbatim>\<open>close_all_domain_logs\<close> (lines 345 to 369).\<close>

definition close_all_domain_logs ::
  "'w host \<Rightarrow> module_state \<Rightarrow> 'w \<Rightarrow> fault + (module_state \<times> 'w)" where
  "close_all_domain_logs h st w =
     (case domain_hash st of
        None \<Rightarrow> if null_hash_faults h then Inl Null_hash_table else Inr (st, w)
      | Some tbl \<Rightarrow>
          (case close_entries h tbl (pool st) w of
             (pl, w1) \<Rightarrow> Inr (st\<lparr>pool := pl\<rparr>, w1)))"

text \<open>The host's \<^verbatim>\<open>switch_core_hash_destroy\<close>: the destructor on every value, then
  the pointer is null.\<close>

definition switch_core_hash_destroy ::
  "'w host \<Rightarrow> module_state \<Rightarrow> 'w \<Rightarrow> fault + (module_state \<times> 'w)" where
  "switch_core_hash_destroy h st w =
     (case domain_hash st of
        None \<Rightarrow> if null_hash_faults h then Inl Null_hash_table else Inr (st, w)
      | Some tbl \<Rightarrow>
          Inr (st\<lparr>domain_hash := None\<rparr>,
               fold (\<lambda>kv. cleanup_domain_entry h (Some (pool st ! snd kv))) tbl w))"

text \<open>\<^verbatim>\<open>mod_logfile_domain_load\<close> (lines 372 to 419). The table is destroyed only
  when there is one, so loading cannot fault.\<close>

definition mod_logfile_domain_load ::
  "'w host \<Rightarrow> module_state \<Rightarrow> 'w \<Rightarrow> switch_status_t \<times> module_state \<times> 'w" where
  "mod_logfile_domain_load h st w =
     (let w0 = (case domain_hash st of
                  None \<Rightarrow> w
                | Some tbl \<Rightarrow>
                    fold (\<lambda>kv. cleanup_domain_entry h (Some (pool st ! snd kv))) tbl w);
          w1 = (case dlsym_render h of
                  Some r \<Rightarrow>
                    switch_log_printf h SWITCH_LOG_INFO
                      (''mod_logfile_domain: runtime resolved switch_log_node_render\<newline>'')
                      [] w0
                | None \<Rightarrow>
                    switch_log_printf h SWITCH_LOG_INFO
                      (''mod_logfile_domain: switch_log_node_render not available; using fallback\<newline>'')
                      [] w0);
          w2 = switch_log_bind_logger h w1;
          diag_path =
            take 511 (log_dir h @ SWITCH_PATH_SEPARATOR h @ ''switch_mod_logfile_domain_loaded'');
          w3 = (case switch_file_open h diag_path
                       {SWITCH_FOPEN_CREATE, SWITCH_FOPEN_WRITE, SWITCH_FOPEN_TRUNC} w2 of
                  (Inr diag, w') \<Rightarrow>
                    switch_file_close h diag
                      (snd (switch_file_write h diag (''mod_logfile_domain loaded\<newline>'') w'))
                | (Inl stat, w') \<Rightarrow>
                    switch_log_printf h SWITCH_LOG_WARNING
                      (''mod_logfile_domain: could not write diagnostic file %s\<newline>'')
                      [S diag_path] w');
          w4 = switch_log_printf h SWITCH_LOG_NOTICE
                 (''mod_logfile_domain: Loaded successfully - Domain-specific logging enabled\<newline>'')
                 [] w3
      in (SWITCH_STATUS_SUCCESS,
          \<lparr>domain_hash = Some [], cache_entries = 0,
           switch_log_node_render_ptr = dlsym_render h, pool = pool st\<rparr>,
          w4))"

text \<open>\<^verbatim>\<open>mod_logfile_domain_shutdown\<close> (lines 422 to 438).\<close>

definition mod_logfile_domain_shutdown ::
  "'w host \<Rightarrow> module_state \<Rightarrow> 'w \<Rightarrow> fault + (switch_status_t \<times> module_state \<times> 'w)" where
  "mod_logfile_domain_shutdown h st w =
     (let w0 = switch_log_printf h SWITCH_LOG_NOTICE
                 (''mod_logfile_domain: Shutting down - %d domains cached\<newline>'')
                 [I (cache_entries st)] w;
          w1 = switch_log_unbind_logger h w0
      in case close_all_domain_logs h st w1 of
           Inl flt \<Rightarrow> Inl flt
         | Inr (st2, w2) \<Rightarrow>
             (case switch_core_hash_destroy h st2 w2 of
                Inl flt \<Rightarrow> Inl flt
              | Inr (st3, w3) \<Rightarrow> Inr (SWITCH_STATUS_SUCCESS, st3, w3)))"

subsection \<open>Sequences of calls\<close>

text \<open>The calls that can reach the module's state, and a run of them in order; a run
  stops at the first fault.\<close>

datatype module_op =
    Op_load
  | Op_logger "switch_log_node option" switch_log_level_t
  | Op_get_domain_entry "string option"
  | Op_write_domain_log "string option" "string option"
  | Op_close_all_domain_logs
  | Op_shutdown

fun run_op :: "'w host \<Rightarrow> module_op \<Rightarrow> module_state \<Rightarrow> 'w \<Rightarrow> fault + (module_state \<times> 'w)" where
  "run_op h Op_load st w = Inr (snd (mod_logfile_domain_load h st w))"
| "run_op h (Op_logger node level) st w =
     (case mod_logfile_domain_logger h st node level w of
        Inl flt \<Rightarrow> Inl flt | Inr r \<Rightarrow> Inr (snd r))"
| "run_op h (Op_get_domain_entry d) st w =
     (case get_domain_entry h st d w of
        Inl flt \<Rightarrow> Inl flt | Inr r \<Rightarrow> Inr (snd r))"
| "run_op h (Op_write_domain_log d ld) st w =
     (case write_domain_log h st d ld w of
        Inl flt \<Rightarrow> Inl flt | Inr r \<Rightarrow> Inr (snd r))"
| "run_op h Op_close_all_domain_logs st w = close_all_domain_logs h st w"
| "run_op h Op_shutdown st w =
     (case mod_logfile_domain_shutdown h st w of
        Inl flt \<Rightarrow> Inl flt | Inr r \<Rightarrow> Inr (snd r))"

fun run_ops ::
  "'w host \<Rightarrow> module_op list \<Rightarrow> module_state \<Rightarrow> 'w \<Rightarrow> fault + (module_state \<times> 'w)" where
  "run_ops h [] st w = Inr (st, w)"
| "run_ops h (op # ops) st w =
     (case run_op h op st w of
        Inl flt \<Rightarrow> Inl flt
      | Inr (st1, w1) \<Rightarrow> run_ops h ops st1 w1)"

text \<open>Load and shutdown are the lifecycle calls.\<close>

fun lifecycle_op :: "module_op \<Rightarrow> bool" where
  "lifecycle_op Op_load = True"
| "lifecycle_op Op_shutdown = True"
| "lifecycle_op _ = False"

subsection \<open>States\<close>

text \<open>The statics before the first load: null pointers and zeros.\<close>

definition initial_state :: module_state where
  "initial_state =
     \<lparr>domain_hash = None, cache_entries = 0, switch_log_node_render_ptr = None, pool = []\<rparr>"

text \<open>The number of entries in the mapping.\<close>

definition entry_count :: "module_state \<Rightarrow> nat" where
  "entry_count st = (case domain_hash st of None \<Rightarrow> 0 | Some tbl \<Rightarrow> length tbl)"

text \<open>
  What holds of the globals between calls: the counter is within the limit, and while
  there is a table the counter is its size, no key and no entry occurs twice, and every
  entry is allocated and has its mutex.
\<close>

definition cache_inv :: "module_state \<Rightarrow> bool" where
  "cache_inv st =
     (0 \<le> cache_entries st \<and> cache_entries st \<le> MAX_DOMAIN_CACHE_SIZE \<and>
      (case domain_hash st of
         None \<Rightarrow> True
       | Some tbl \<Rightarrow>
           cache_entries st = int (length tbl) \<and> distinct (map fst tbl) \<and> distinct (map snd tbl) \<and>
           list_all (\<lambda>kv. snd kv < length (pool st) \<and> file_lock (pool st ! snd kv)) tbl))"

text \<open>The handles open in the cache, in the table's order.\<close>

definition open_handles :: "module_state \<Rightarrow> switch_file list" where
  "open_handles st =
     (case domain_hash st of
        None \<Rightarrow> []
      | Some tbl \<Rightarrow> List.map_filter (\<lambda>kv. log_file (pool st ! snd kv)) tbl)"

subsection \<open>Hosts and inputs for the examples\<close>

text \<open>A host whose world is the trace of the calls made on it. Every open succeeds with
  a fresh handle on an empty file, every write is complete.\<close>

datatype io_event =
    Ev_open string "fopen_flag set"
  | Ev_open_failed string
  | Ev_write switch_file string
  | Ev_write_failed switch_file string
  | Ev_close switch_file
  | Ev_log switch_log_level_t string "fmt_arg list"
  | Ev_bind
  | Ev_unbind

fun level_name :: "switch_log_level_t \<Rightarrow> string" where
  "level_name SWITCH_LOG_DEBUG = ''DEBUG''"
| "level_name SWITCH_LOG_INFO = ''INFO''"
| "level_name SWITCH_LOG_NOTICE = ''NOTICE''"
| "level_name SWITCH_LOG_WARNING = ''WARNING''"
| "level_name SWITCH_LOG_ERROR = ''ERR''"
| "level_name SWITCH_LOG_CRIT = ''CRIT''"
| "level_name SWITCH_LOG_ALERT = ''ALERT''"
| "level_name SWITCH_LOG_CONSOLE = ''CONSOLE''"

definition healthy_host :: "io_event list host" where
  "healthy_host =
     \<lparr>switch_file_open = (\<lambda>path flags w. (Inr (length w), w @ [Ev_open path flags])),
      switch_file_get_size = (\<lambda>f w. 0),
      switch_file_write = (\<lambda>f d w. ((True, word_of_nat (length d)), w @ [Ev_write f d])),
      switch_file_close = (\<lambda>f w. w @ [Ev_close f]),
      switch_log_printf = (\<lambda>level fmt args w. w @ [Ev_log level fmt args]),
      switch_log_bind_logger = (\<lambda>w. w @ [Ev_bind]),
      switch_log_unbind_logger = (\<lambda>w. w @ [Ev_unbind]),
      switch_log_level2str = level_name,
      strftime_now = (\<lambda>w. ''2024-05-01 12:00:00''),
      log_dir = ''/var/log/freeswitch'',
      SWITCH_PATH_SEPARATOR = ''/'',
      dlsym_render = None,
      null_hash_faults = True\<rparr>"

text \<open>The same host with a hash API that bears a null table.\<close>

definition tolerant_host :: "io_event list host" where
  "tolerant_host = healthy_host\<lparr>null_hash_faults := False\<rparr>"

text \<open>The same host on a full disk: files open, every write fails with nothing written.\<close>

definition disk_full_host :: "io_event list host" where
  "disk_full_host =
     healthy_host\<lparr>switch_file_write := (\<lambda>f d w. ((False, 0), w @ [Ev_write_failed f d]))\<rparr>"

definition acme_entry :: domain_cache_entry_t where
  "acme_entry =
     \<lparr>domain = ''acme.com'', log_file = Some 3, log_size = 100, roll_size = DEFAULT_LIMIT,
      logfile_path = ''/var/log/freeswitch/domain_acme.com.log'', file_lock = True\<rparr>"

definition acme_channel :: switch_channel where
  "acme_channel =
     \<lparr>switch_channel_get_variable =
        (\<lambda>v. if v = ''domain_name'' then Some ''acme.com''
             else if v = ''domain'' then Some ''other.org'' else None),
      switch_channel_get_uuid = Some ''uuid-1''\<rparr>"

definition plain_channel :: switch_channel where
  "plain_channel =
     \<lparr>switch_channel_get_variable =
        (\<lambda>v. if v = ''domain_name'' then Some [] else if v = ''domain'' then Some ''other.org''
             else None),
      switch_channel_get_uuid = None\<rparr>"

definition long_key :: string where
  "long_key = replicate 300 CHR ''a''"

definition long_domain_channel :: switch_channel where
  "long_domain_channel =
     \<lparr>switch_channel_get_variable = (\<lambda>v. if v = ''domain_name'' then Some long_key else None),
      switch_channel_get_uuid = None\<rparr>"

text \<open>The state after a load on a host without the renderer.\<close>

definition empty_cache_state :: module_state where
  "empty_cache_state =
     \<lparr>domain_hash = Some [], cache_entries = 0, switch_log_node_render_ptr = None, pool = []\<rparr>"

definition example_node :: "switch_channel option \<Rightarrow> switch_log_node" where
  "example_node channel =
     \<lparr>node_file = Some ''switch_core.c'', node_func = Some ''domain=text.net'', node_line = 42,
      node_userdata = Some \<lparr>switch_core_session_get_channel = channel\<rparr>\<rparr>"

text \<open>A cache at its limit: 256 entries for the keys d, dd, ddd and so on.\<close>

definition full_key :: "nat \<Rightarrow> string" where
  "full_key i = replicate (Suc i) CHR ''d''"

definition full_state :: module_state where
  "full_state =
     \<lparr>domain_hash = Some (map (\<lambda>i. (full_key i, i)) [0..<256]),
      cache_entries = 256,
      switch_log_node_render_ptr = None,
      pool = map (\<lambda>i. \<lparr>domain = take 127 (full_key i), log_file = Some i, log_size = 0,
                        roll_size = DEFAULT_LIMIT,
                        logfile_path = ''/var/log/freeswitch/domain_'' @ full_key i @ ''.log'',
                        file_lock = True\<rparr>) [0..<256]\<rparr>"

text \<open>The same host where the handle 3 has gone stale: a write to it fails with nothing
  written, any other write is complete.\<close>

definition stale_handle_host :: "io_event list host" where
  "stale_handle_host =
     healthy_host\<lparr>switch_file_write :=
       (\<lambda>f d w. if f = 3 then ((False, 0), w @ [Ev_write_failed f d])
                 else ((True, word_of_nat (length d)), w @ [Ev_write f d]))\<rparr>"

text \<open>The stale handle on a host where no file can be opened any more.\<close>

definition no_open_host :: "io_event list host" where
  "no_open_host =
     stale_handle_host\<lparr>switch_file_open := (\<lambda>path flags w. (Inl 13, w @ [Ev_open_failed path]))\<rparr>"

text \<open>The globals and the trace after a load, one line written for \<open>acme.com\<close> and a
  shutdown, on \<open>healthy_host\<close> and on \<open>tolerant_host\<close> alike.\<close>

definition shut_state :: module_state where
  "shut_state =
     \<lparr>domain_hash = None, cache_entries = 1, switch_log_node_render_ptr = None,
      pool = [\<lparr>domain = ''acme.com'', log_file = None, log_size = 4, roll_size = DEFAULT_LIMIT,
               logfile_path = ''/var/log/freeswitch/domain_acme.com.log'', file_lock = True\<rparr>]\<rparr>"

definition shut_world :: "io_event list" where
  "shut_world =
     [Ev_log SWITCH_LOG_INFO
        ''mod_logfile_domain: switch_log_node_render not available; using fallback\<newline>'' [],
      Ev_bind,
      Ev_open ''/var/log/freeswitch/switch_mod_logfile_domain_loaded''
        {SWITCH_FOPEN_CREATE, SWITCH_FOPEN_WRITE, SWITCH_FOPEN_TRUNC},
      Ev_write 2 ''mod_logfile_domain loaded\<newline>'', Ev_close 2,
      Ev_log SWITCH_LOG_NOTICE
        ''mod_logfile_domain: Loaded successfully - Domain-specific logging enabled\<newline>'' [],
      Ev_open ''/var/log/freeswitch/domain_acme.com.log''
        {SWITCH_FOPEN_CREATE, SWITCH_FOPEN_READ, SWITCH_FOPEN_WRITE, SWITCH_FOPEN_APPEND},
      Ev_log SWITCH_LOG_DEBUG
        ''mod_logfile_domain: Created cache entry for domain: %s\<newline>'' [S ''acme.com''],
      Ev_write 6 ''one\<newline>'',
      Ev_log SWITCH_LOG_NOTICE
        ''mod_logfile_domain: Shutting down - %d domains cached\<newline>'' [I 1],
      Ev_unbind, Ev_close 6]"

text \<open>The globals after a load and a first call for \<open>acme.com\<close> on \<open>healthy_host\<close>.\<close>

definition acme_state :: module_state where
  "acme_state =
     \<lparr>domain_hash = Some [(''acme.com'', 0)], cache_entries = 1,
      switch_log_node_render_ptr = None,
      pool = [\<lparr>domain = ''acme.com'', log_file = Some 6, log_size = 0, roll_size = DEFAULT_LIMIT,
               logfile_path = ''/var/log/freeswitch/domain_acme.com.log'', file_lock = True\<rparr>]\<rparr>"

text \<open>A cache with two keys that differ only in case.\<close>

definition two_key_state :: module_state where
  "two_key_state =
     \<lparr>domain_hash = Some [(''acme.com'', 0), (''Acme.com'', 1)], cache_entries = 2,
      switch_log_node_render_ptr = None,
      pool = [\<lparr>domain = ''acme.com'', log_file = Some 6, log_size = 0, roll_size = DEFAULT_LIMIT,
               logfile_path = ''/var/log/freeswitch/domain_acme.com.log'', file_lock = True\<rparr>,
              \<lparr>domain = ''Acme.com'', log_file = Some 8, log_size = 0, roll_size = DEFAULT_LIMIT,
               logfile_path = ''/var/log/freeswitch/domain_Acme.com.log'', file_lock = True\<rparr>]\<rparr>"

text \<open>The loaded state with a renderer that fails after writing into the buffer.\<close>

definition failing_render_state :: module_state where
  "failing_render_state =
     empty_cache_state\<lparr>switch_log_node_render_ptr := Some (\<lambda>node. (False, ''domain=text.net''))\<rparr>"

text \<open>
  The first attempt of \<open>write_domain_log_entry\<close> (lines 237 to 243) fails and leaves the
  world \<open>w2\<close>: there is no handle, or the write fails and the handle is closed.
\<close>

definition first_write_failed ::
  "'w host \<Rightarrow> domain_cache_entry_t \<Rightarrow> string \<Rightarrow> 'w \<Rightarrow> 'w \<Rightarrow> bool" where
  "first_write_failed h entry log_data w w2 =
     (case log_file entry of
        None \<Rightarrow> w2 = w
      | Some f \<Rightarrow>
          \<not> fst (fst (switch_file_write h f log_data w)) \<and>
          w2 = switch_file_close h f (snd (switch_file_write h f log_data w)))"

section \<open>Auxiliary facts\<close>

subsection \<open>Strings\<close>


lemma copy_domainbuf_eq: "copy_domainbuf p i = take (127 - i) (takeWhile (\<lambda>c. \<not> isspace c) p)"
proof (induction p arbitrary: i)
  case Nil then show ?case by simp
next
  case (Cons c p)
  show ?case
  proof (cases "\<not> isspace c \<and> i + 1 < 128")
    case True
    then have "127 - i = Suc (127 - (i + 1))" by arith
    with True Cons show ?thesis by simp
  next
    case False then show ?thesis by auto
  qed
qed

lemma strstr_first:
  "(\<forall>k<length pre. \<not> prefix n (drop k (pre @ n @ rest))) \<Longrightarrow> strstr (pre @ n @ rest) n = Some (n @ rest)"
proof (induction pre)
  case Nil
  have "prefix n (n @ rest)" by simp
  then show ?case by (cases "n @ rest") auto
next
  case (Cons a pre)
  have "\<not> prefix n (drop 0 ((a # pre) @ n @ rest))" using Cons.prems by blast
  moreover have "\<forall>k<length pre. \<not> prefix n (drop k (pre @ n @ rest))"
  proof (intro allI impI)
    fix k assume "k < length pre"
    then have "Suc k < length (a # pre)" by simp
    then have "\<not> prefix n (drop (Suc k) ((a # pre) @ n @ rest))" using Cons.prems by blast
    then show "\<not> prefix n (drop k (pre @ n @ rest))" by simp
  qed
  ultimately show ?case using Cons.IH by simp
qed

lemma strstr_none:
  "(\<forall>k\<le>length m. \<not> prefix n (drop k m)) \<Longrightarrow> strstr m n = None"
proof (induction m)
  case Nil then show ?case by auto
next
  case (Cons a m)
  have "\<not> prefix n (drop 0 (a # m))" using Cons.prems by blast
  moreover have "\<forall>k\<le>length m. \<not> prefix n (drop k m)"
  proof (intro allI impI)
    fix k assume "k \<le> length m"
    then have "Suc k \<le> length (a # m)" by simp
    then have "\<not> prefix n (drop (Suc k) (a # m))" using Cons.prems by blast
    then show "\<not> prefix n (drop k m)" by simp
  qed
  ultimately show ?case using Cons.IH by simp
qed

subsection \<open>Files and the cache\<close>


lemma open_domain_logfile_lock:
  "open_domain_logfile h e w = (status, e', w') \<Longrightarrow> file_lock e' = file_lock e"
  by (auto simp: open_domain_logfile_def split: prod.splits sum.splits)

lemma write_domain_log_entry_lock:
  "write_domain_log_entry h e ld w = (status, e', w') \<Longrightarrow> file_lock e' = file_lock e"
  by (auto simp: write_domain_log_entry_def Let_def split: prod.splits sum.splits option.splits bool.splits switch_status_t.splits
       dest!: open_domain_logfile_lock)

lemma filter_absent_key: "map_of tbl key = None \<Longrightarrow> filter (\<lambda>kv. fst kv \<noteq> key) tbl = tbl"
  by (induction tbl) (auto split: if_splits)

lemma map_of_absent_key: "map_of tbl key = None \<Longrightarrow> key \<notin> set (map fst tbl)"
  by (simp add: map_of_eq_None_iff)

text \<open>The four ways \<open>get_domain_entry\<close> returns.\<close>
lemma get_domain_entry_cases:
  assumes "get_domain_entry h st d w = Inr (r, st', w')"
  shows "(r = None \<and> st' = st)
       \<or> (\<exists>k tbl a. d = Some k \<and> domain_hash st = Some tbl \<and> map_of tbl k = Some a \<and> r = Some a \<and> st' = st \<and> w' = w)
       \<or> (\<exists>e. r = None \<and> cache_entries st < MAX_DOMAIN_CACHE_SIZE \<and> file_lock e \<and> st' = st\<lparr>pool := pool st @ [e]\<rparr>)
       \<or> (\<exists>k e hash'. d = Some k \<and> k \<noteq> [] \<and> r = Some (length (pool st)) \<and> cache_entries st < MAX_DOMAIN_CACHE_SIZE \<and> file_lock e
             \<and> (case domain_hash st of None \<Rightarrow> hash' = None | Some tbl \<Rightarrow> map_of tbl k = None \<and> hash' = Some (tbl @ [(k, length (pool st))]))
             \<and> st' = st\<lparr>domain_hash := hash', cache_entries := cache_entries st + 1, pool := pool st @ [e]\<rparr>)"
proof (cases d)
  case None
  with assms show ?thesis by (simp add: get_domain_entry_def)
next
  case (Some k)
  show ?thesis
  proof (cases "k = []")
    case True
    with assms Some show ?thesis by (simp add: get_domain_entry_def)
  next
    case False
    show ?thesis
    proof (cases "switch_core_hash_find h (domain_hash st) k")
      case (Inl flt)
      with assms Some False show ?thesis by (simp add: get_domain_entry_def)
    next
      case (Inr found)
      show ?thesis
      proof (cases found)
        case (Some a)
        with assms \<open>d = Some k\<close> False Inr show ?thesis
          by (auto simp: get_domain_entry_def switch_core_hash_find_def split: option.splits if_splits)
      next
        case None
        note nf = Inr None
        show ?thesis
        proof (cases "cache_entries st \<ge> MAX_DOMAIN_CACHE_SIZE")
          case True
          with assms \<open>d = Some k\<close> False nf show ?thesis by (simp add: get_domain_entry_def)
        next
          case notfull: False
          define e0 where "e0 = new_domain_entry h k"
          obtain s e1 w1 where op: "open_domain_logfile h e0 w = (s, e1, w1)"
            by (cases "open_domain_logfile h e0 w") auto
          have lock: "file_lock e1" using open_domain_logfile_lock[OF op] by (simp add: e0_def new_domain_entry_def)
          show ?thesis
          proof (cases s)
            case SWITCH_STATUS_FALSE
            with assms \<open>d = Some k\<close> False nf notfull op lock show ?thesis
              by (auto simp: get_domain_entry_def Let_def e0_def[symmetric])
          next
            case SWITCH_STATUS_SUCCESS
            show ?thesis
            proof (cases "domain_hash st")
              case None
              with SWITCH_STATUS_SUCCESS assms \<open>d = Some k\<close> False nf notfull op lock show ?thesis
                by (auto simp: get_domain_entry_def Let_def e0_def[symmetric] switch_core_hash_insert_destructor_def
                         switch_core_hash_find_def split: if_splits)
            next
              case (Some tbl)
              with nf have "map_of tbl k = None" by (simp add: switch_core_hash_find_def)
              with Some SWITCH_STATUS_SUCCESS assms \<open>d = Some k\<close> False nf notfull op lock show ?thesis
                by (auto simp: get_domain_entry_def Let_def e0_def[symmetric] switch_core_hash_insert_destructor_def
                         filter_absent_key)
            qed
          qed
        qed
      qed
    qed
  qed
qed


lemma cache_inv_pool:
  assumes "cache_inv st" "length pl = length (pool st)"
    and "\<And>i. i < length pl \<Longrightarrow> file_lock (pool st ! i) \<Longrightarrow> file_lock (pl ! i)"
  shows "cache_inv (st\<lparr>pool := pl\<rparr>)"
  using assms by (auto simp: cache_inv_def list_all_iff split: option.splits)

lemma cache_inv_pool_append:
  assumes "cache_inv st"
  shows "cache_inv (st\<lparr>pool := pool st @ [e]\<rparr>)"
  using assms by (auto simp: cache_inv_def list_all_iff nth_append split: option.splits)

lemma cache_inv_insert:
  assumes "cache_inv st" "cache_entries st < MAX_DOMAIN_CACHE_SIZE" "file_lock e"
    and "case domain_hash st of None \<Rightarrow> hash' = None
         | Some tbl \<Rightarrow> map_of tbl k = None \<and> hash' = Some (tbl @ [(k, length (pool st))])"
  shows "cache_inv (st\<lparr>domain_hash := hash', cache_entries := cache_entries st + 1, pool := pool st @ [e]\<rparr>)"
proof (cases "domain_hash st")
  case None
  with assms show ?thesis by (auto simp: cache_inv_def)
next
  case (Some tbl)
  with assms have nk: "k \<notin> set (map fst tbl)" and h': "hash' = Some (tbl @ [(k, length (pool st))])"
    by (auto simp: map_of_eq_None_iff)
  from assms Some have valid: "\<forall>kv\<in>set tbl. snd kv < length (pool st) \<and> file_lock (pool st ! snd kv)"
    by (simp add: cache_inv_def list_all_iff)
  then have fresh: "length (pool st) \<notin> set (map snd tbl)" by auto
  from assms Some have base: "cache_entries st = int (length tbl)" "distinct (map fst tbl)" "distinct (map snd tbl)"
    "0 \<le> cache_entries st"
    by (simp_all add: cache_inv_def)
  show ?thesis
    using nk h' valid fresh base assms(2,3)
    by (auto simp: cache_inv_def list_all_iff nth_append)
qed

lemma cache_inv_get_domain_entry:
  assumes "cache_inv st" "get_domain_entry h st d w = Inr (r, st', w')"
  shows "cache_inv st'"
  using get_domain_entry_cases[OF assms(2)] assms(1)
  by (auto intro: cache_inv_pool_append cache_inv_insert)

lemma table_get_domain_entry:
  assumes "domain_hash st = Some tbl" "get_domain_entry h st d w = Inr (r, st', w')"
  shows "\<exists>tbl'. domain_hash st' = Some tbl' \<and> prefix tbl tbl'"
  using get_domain_entry_cases[OF assms(2)] assms(1) by auto

lemma lookup_get_domain_entry:
  assumes "domain_hash st = Some tbl" "get_domain_entry h st (Some k) w = Inr (Some a, st', w')"
  shows "\<exists>tbl'. domain_hash st' = Some tbl' \<and> map_of tbl' k = Some a"
  using get_domain_entry_cases[OF assms(2)] assms(1) by (auto simp: map_add_def)

lemma get_domain_entry_found:
  "domain_hash st = Some tbl \<Longrightarrow> map_of tbl k = Some a \<Longrightarrow> k \<noteq> [] \<Longrightarrow>
     get_domain_entry h st (Some k) w = Inr (Some a, st, w)"
  by (simp add: get_domain_entry_def switch_core_hash_find_def)

lemma prefix_map_of:
  "prefix tbl tbl' \<Longrightarrow> map_of tbl k = Some a \<Longrightarrow> map_of tbl' k = Some a"
  by (auto simp: prefix_def map_add_Some_iff)

lemma get_domain_entry_total:
  assumes "domain_hash st \<noteq> None \<or> \<not> null_hash_faults h"
  shows "\<exists>r st' w'. get_domain_entry h st d w = Inr (r, st', w')"
proof -
  have nofind: "\<And>k. \<exists>x. switch_core_hash_find h (domain_hash st) k = Inr x"
    using assms by (auto simp: switch_core_hash_find_def split: option.splits)
  have noins: "\<And>k v. \<exists>x. switch_core_hash_insert_destructor h (domain_hash st) k v = Inr x"
    using assms by (auto simp: switch_core_hash_insert_destructor_def split: option.splits)
  show ?thesis
  proof (cases d)
    case None then show ?thesis by (simp add: get_domain_entry_def)
  next
    case (Some k)
    obtain x where x: "switch_core_hash_find h (domain_hash st) k = Inr x" using nofind by blast
    obtain y where y: "switch_core_hash_insert_destructor h (domain_hash st) k (length (pool st)) = Inr y"
      using noins by blast
    obtain s e1 w1 where op: "open_domain_logfile h (new_domain_entry h k) w = (s, e1, w1)"
      by (cases "open_domain_logfile h (new_domain_entry h k) w") auto
    show ?thesis using Some x y op
      by (cases x; cases s) (auto simp: get_domain_entry_def Let_def)
  qed
qed

lemma write_domain_log_cases:
  assumes "write_domain_log h st d ld w = Inr (s, st', w')"
  shows "st' = st \<or> (\<exists>r st1 w1. get_domain_entry h st d w = Inr (r, st1, w1) \<and>
            (st' = st1 \<or> (\<exists>a e'. r = Some a \<and> file_lock e' = file_lock (pool st1 ! a)
                              \<and> st' = st1\<lparr>pool := (pool st1)[a := e']\<rparr>)))"
proof (cases "d = None \<or> ld = None")
  case True
  with assms show ?thesis by (auto simp: write_domain_log_def split: option.splits)
next
  case False
  then obtain k l where dl: "d = Some k" "ld = Some l" by auto
  show ?thesis
  proof (cases "get_domain_entry h st d w")
    case (Inl flt)
    with assms dl show ?thesis by (simp add: write_domain_log_def)
  next
    case (Inr res)
    obtain r st1 w1 where res: "res = (r, st1, w1)" by (cases res) auto
    show ?thesis
    proof (cases r)
      case None
      with assms dl Inr res show ?thesis by (auto simp: write_domain_log_def)
    next
      case (Some a)
      obtain s2 e2 w2 where wr: "write_domain_log_entry h (pool st1 ! a) l w1 = (s2, e2, w2)"
        by (cases "write_domain_log_entry h (pool st1 ! a) l w1") auto
      from write_domain_log_entry_lock[OF wr] assms dl Inr res Some wr show ?thesis
        by (auto simp: write_domain_log_def)
    qed
  qed
qed

lemma cache_inv_pool_update:
  assumes "cache_inv st" "file_lock e' = file_lock (pool st ! a)"
  shows "cache_inv (st\<lparr>pool := (pool st)[a := e']\<rparr>)"
proof (rule cache_inv_pool[OF assms(1)])
  show "length ((pool st)[a := e']) = length (pool st)" by simp
next
  fix i assume "i < length ((pool st)[a := e'])" "file_lock (pool st ! i)"
  then show "file_lock ((pool st)[a := e'] ! i)" using assms(2) by (cases "i = a") auto
qed

lemma cache_inv_write_domain_log:
  assumes "cache_inv st" "write_domain_log h st d ld w = Inr (s, st', w')"
  shows "cache_inv st'"
  using write_domain_log_cases[OF assms(2)] assms(1)
  by (auto dest: cache_inv_get_domain_entry intro: cache_inv_pool_update)

lemma table_write_domain_log:
  assumes "domain_hash st = Some tbl" "write_domain_log h st d ld w = Inr (s, st', w')"
  shows "\<exists>tbl'. domain_hash st' = Some tbl' \<and> prefix tbl tbl'"
  using write_domain_log_cases[OF assms(2)] assms(1)
  by (auto dest: table_get_domain_entry)

lemma write_domain_log_total:
  assumes "domain_hash st \<noteq> None \<or> \<not> null_hash_faults h"
  shows "\<exists>s st' w'. write_domain_log h st d ld w = Inr (s, st', w')"
proof -
  obtain r st1 w1 where "get_domain_entry h st d w = Inr (r, st1, w1)"
    using get_domain_entry_total[OF assms] by blast
  then show ?thesis
    by (auto simp: write_domain_log_def split: option.splits prod.splits)
qed

lemma logger_cases:
  assumes "mod_logfile_domain_logger h st node level w = Inr (s, st', w')"
  shows "s = SWITCH_STATUS_SUCCESS \<and> (st' = st \<or> (\<exists>d ld s1. write_domain_log h st d ld w = Inr (s1, st', w')))"
  using assms
  by (auto simp: mod_logfile_domain_logger_def Let_def split: option.splits if_splits sum.splits)

lemma logger_total:
  assumes "domain_hash st \<noteq> None \<or> \<not> null_hash_faults h"
  shows "\<exists>st' w'. mod_logfile_domain_logger h st node level w = Inr (SWITCH_STATUS_SUCCESS, st', w')"
proof (cases node)
  case None then show ?thesis by (simp add: mod_logfile_domain_logger_def)
next
  case (Some n)
  obtain s st1 w1 where "write_domain_log h st (logger_domain (logger_channel n) (logger_rendered_msg st n))
     (Some (logger_log_line h w level n (logger_channel n) (logger_rendered_msg st n))) w = Inr (s, st1, w1)"
    using write_domain_log_total[OF assms] by blast
  with Some show ?thesis
    by (auto simp: mod_logfile_domain_logger_def Let_def)
qed

subsection \<open>Closing and sequences of calls\<close>


lemma open_domain_logfile_handle:
  "open_domain_logfile h e w = (SWITCH_STATUS_SUCCESS, e', w') \<Longrightarrow> log_file e' \<noteq> None"
  by (auto simp: open_domain_logfile_def split: prod.splits sum.splits)

lemma close_cell_lock:
  "file_lock (pl[v := (pl ! v)\<lparr>log_file := None\<rparr>] ! i) = file_lock (pl ! i)"
proof (cases "i = v")
  case True
  show ?thesis
  proof (cases "v < length pl")
    case True with \<open>i = v\<close> show ?thesis by simp
  next
    case False with \<open>i = v\<close> show ?thesis by (simp add: list_update_beyond)
  qed
next
  case False then show ?thesis by simp
qed

lemma close_entries_length:
  "close_entries h tbl pl w = (pl', w') \<Longrightarrow> length pl' = length pl"
proof (induction tbl arbitrary: pl w)
  case Nil then show ?case by simp
next
  case (Cons kv tbl)
  obtain var val where kv: "kv = (var, val)" by (cases kv) auto
  from Cons.prems kv show ?case
    by (auto split: if_splits option.splits dest: Cons.IH)
qed

lemma close_entries_lock:
  "close_entries h tbl pl w = (pl', w') \<Longrightarrow> file_lock (pl' ! i) = file_lock (pl ! i)"
proof (induction tbl arbitrary: pl w)
  case Nil then show ?case by simp
next
  case (Cons kv tbl)
  obtain var val where kv: "kv = (var, val)" by (cases kv) auto
  from Cons.prems kv show ?case
    by (auto split: if_splits option.splits dest!: Cons.IH simp: close_cell_lock)
qed

text \<open>What the closing loop does when every entry is allocated, has its mutex and is
  listed once.\<close>
lemma close_entries_result:
  assumes "distinct (map snd tbl)"
    and "\<forall>kv\<in>set tbl. snd kv < length pl \<and> file_lock (pl ! snd kv)"
  shows "close_entries h tbl pl w =
           (map (\<lambda>i. if i \<in> snd ` set tbl then (pl ! i)\<lparr>log_file := None\<rparr> else pl ! i) [0..<length pl],
            fold (switch_file_close h) (List.map_filter (\<lambda>kv. log_file (pl ! snd kv)) tbl) w)"
  using assms
proof (induction tbl arbitrary: pl w)
  case Nil
  show ?case by (simp add: map_filter_simps map_nth)
next
  case (Cons kv tbl)
  obtain var val where kv: "kv = (var, val)" by (cases kv) auto
  define pl2 where "pl2 = pl[val := (pl ! val)\<lparr>log_file := None\<rparr>]"
  define w2 where "w2 = (case log_file (pl ! val) of None \<Rightarrow> w | Some f \<Rightarrow> switch_file_close h f w)"
  from Cons.prems kv have val: "val < length pl" "file_lock (pl ! val)" "val \<notin> snd ` set tbl"
    by auto
  have step: "close_entries h (kv # tbl) pl w = close_entries h tbl pl2 w2"
  proof (cases "log_file (pl ! val)")
    case None
    then have "pl2 = pl" unfolding pl2_def by (simp add: list_update_same_conv val(1))
    with None val kv show ?thesis by (simp add: w2_def)
  next
    case (Some f)
    with val kv show ?thesis by (simp add: w2_def pl2_def)
  qed
  have d2: "distinct (map snd tbl)" using Cons.prems by simp
  have v2: "\<forall>kv\<in>set tbl. snd kv < length pl2 \<and> file_lock (pl2 ! snd kv)"
    using Cons.prems by (auto simp: pl2_def close_cell_lock)
  have same: "pl2 ! snd kv' = pl ! snd kv'" if "kv' \<in> set tbl" for kv'
  proof -
    from that have "snd kv' \<in> snd ` set tbl" by simp
    with val(3) have "snd kv' \<noteq> val" by metis
    then show ?thesis by (simp add: pl2_def)
  qed
  have mf: "List.map_filter (\<lambda>kv. log_file (pl2 ! snd kv)) tbl = List.map_filter (\<lambda>kv. log_file (pl ! snd kv)) tbl"
    using same by (auto simp: map_filter_def intro!: map_cong filter_cong)
  have pls: "map (\<lambda>i. if i \<in> snd ` set tbl then (pl2 ! i)\<lparr>log_file := None\<rparr> else pl2 ! i) [0..<length pl2]
           = map (\<lambda>i. if i \<in> snd ` set (kv # tbl) then (pl ! i)\<lparr>log_file := None\<rparr> else pl ! i) [0..<length pl]"
    using val kv by (auto simp: pl2_def nth_list_update)
  have ws: "fold (switch_file_close h) (List.map_filter (\<lambda>kv. log_file (pl ! snd kv)) tbl) w2
          = fold (switch_file_close h) (List.map_filter (\<lambda>kv. log_file (pl ! snd kv)) (kv # tbl)) w"
    using kv by (cases "log_file (pl ! val)") (auto simp: w2_def map_filter_simps)
  show ?case
    unfolding step Cons.IH[OF d2 v2] mf pls ws ..
qed

lemma cleanup_closed:
  "\<forall>kv\<in>set tbl. log_file (pl ! snd kv) = None \<Longrightarrow>
     fold (\<lambda>kv. cleanup_domain_entry h (Some (pl ! snd kv))) tbl w = w"
  by (induction tbl arbitrary: w) (auto simp: cleanup_domain_entry_def)


lemma close_all_domain_logs_cases:
  assumes "close_all_domain_logs h st w = Inr (st', w')"
  shows "st' = st \<or> (\<exists>tbl pl. domain_hash st = Some tbl \<and> close_entries h tbl (pool st) w = (pl, w') \<and> st' = st\<lparr>pool := pl\<rparr>)"
  using assms by (auto simp: close_all_domain_logs_def split: option.splits if_splits prod.splits)

lemma cache_inv_close_all_domain_logs:
  assumes "cache_inv st" "close_all_domain_logs h st w = Inr (st', w')"
  shows "cache_inv st'"
  using close_all_domain_logs_cases[OF assms(2)] assms(1)
  by (auto intro!: cache_inv_pool simp: close_entries_length close_entries_lock)

lemma table_close_all_domain_logs:
  assumes "close_all_domain_logs h st w = Inr (st', w')"
  shows "domain_hash st' = domain_hash st"
  using close_all_domain_logs_cases[OF assms] by auto

lemma close_all_domain_logs_total:
  assumes "domain_hash st \<noteq> None \<or> \<not> null_hash_faults h"
  shows "\<exists>st' w'. close_all_domain_logs h st w = Inr (st', w')"
  using assms by (auto simp: close_all_domain_logs_def split: option.splits prod.splits)

lemma cache_inv_no_table:
  "cache_inv st \<Longrightarrow> cache_inv (st\<lparr>domain_hash := None\<rparr>)"
  by (simp add: cache_inv_def)

lemma cache_inv_shutdown:
  assumes "cache_inv st" "mod_logfile_domain_shutdown h st w = Inr (s, st', w')"
  shows "cache_inv st'"
proof -
  from assms(2) obtain st2 w2 w1 where
    c: "close_all_domain_logs h st w1 = Inr (st2, w2)" and
    d: "switch_core_hash_destroy h st2 w2 = Inr (st', w')"
    by (auto simp: mod_logfile_domain_shutdown_def Let_def split: sum.splits prod.splits)
  have "cache_inv st2" using cache_inv_close_all_domain_logs[OF assms(1) c] .
  with d show ?thesis
    by (auto simp: switch_core_hash_destroy_def cache_inv_no_table split: option.splits if_splits)
qed

lemma cache_inv_load: "cache_inv (fst (snd (mod_logfile_domain_load h st w)))"
  by (simp add: mod_logfile_domain_load_def Let_def cache_inv_def MAX_DOMAIN_CACHE_SIZE_def)

lemma cache_inv_logger:
  assumes "cache_inv st" "mod_logfile_domain_logger h st node level w = Inr (s, st', w')"
  shows "cache_inv st'"
  using logger_cases[OF assms(2)] assms(1) by (auto dest: cache_inv_write_domain_log)

lemma table_logger:
  assumes "domain_hash st = Some tbl" "mod_logfile_domain_logger h st node level w = Inr (s, st', w')"
  shows "\<exists>tbl'. domain_hash st' = Some tbl' \<and> prefix tbl tbl'"
  using logger_cases[OF assms(2)] assms(1) by (auto dest: table_write_domain_log)

lemma cache_inv_run_op:
  assumes "cache_inv st" "run_op h op st w = Inr (st', w')"
  shows "cache_inv st'"
proof (cases op)
  case Op_load
  with assms(2) have "st' = fst (snd (mod_logfile_domain_load h st w))" by auto
  then show ?thesis by (simp add: cache_inv_load)
next
  case (Op_logger node level)
  with assms show ?thesis by (auto split: sum.splits dest: cache_inv_logger)
next
  case (Op_get_domain_entry d)
  with assms show ?thesis by (auto split: sum.splits dest: cache_inv_get_domain_entry)
next
  case (Op_write_domain_log d ld)
  with assms show ?thesis by (auto split: sum.splits dest: cache_inv_write_domain_log)
next
  case Op_close_all_domain_logs
  with assms show ?thesis by (auto dest: cache_inv_close_all_domain_logs)
next
  case Op_shutdown
  with assms show ?thesis by (auto split: sum.splits dest: cache_inv_shutdown)
qed

lemma cache_inv_run_ops:
  "cache_inv st \<Longrightarrow> run_ops h ops st w = Inr (st', w') \<Longrightarrow> cache_inv st'"
proof (induction ops arbitrary: st w)
  case Nil then show ?case by simp
next
  case (Cons op ops)
  from Cons.prems(2) obtain st1 w1 where
    s1: "run_op h op st w = Inr (st1, w1)" and s2: "run_ops h ops st1 w1 = Inr (st', w')"
    by (auto split: sum.splits)
  from cache_inv_run_op[OF Cons.prems(1) s1] s2 show ?case by (rule Cons.IH)
qed

lemma cache_inv_initial_state: "cache_inv initial_state"
  by (simp add: cache_inv_def initial_state_def MAX_DOMAIN_CACHE_SIZE_def)

lemma cache_inv_bounds:
  "cache_inv st \<Longrightarrow> entry_count st \<le> 256 \<and> cache_entries st \<le> 256"
  by (auto simp: cache_inv_def entry_count_def MAX_DOMAIN_CACHE_SIZE_def split: option.splits)

lemma run_op_loaded:
  assumes "domain_hash st = Some tbl" "\<not> lifecycle_op op"
  shows "\<exists>st' w' tbl'. run_op h op st w = Inr (st', w') \<and> domain_hash st' = Some tbl' \<and> prefix tbl tbl'"
proof -
  have ld: "domain_hash st \<noteq> None \<or> \<not> null_hash_faults h" using assms(1) by simp
  show ?thesis
  proof (cases op)
    case Op_load with assms show ?thesis by simp
  next
    case Op_shutdown with assms show ?thesis by simp
  next
    case (Op_logger node level)
    obtain st' w' where r: "mod_logfile_domain_logger h st node level w = Inr (SWITCH_STATUS_SUCCESS, st', w')"
      using logger_total[OF ld] by blast
    from table_logger[OF assms(1) r] r Op_logger show ?thesis by auto
  next
    case (Op_get_domain_entry d)
    obtain r st' w' where r: "get_domain_entry h st d w = Inr (r, st', w')"
      using get_domain_entry_total[OF ld] by blast
    from table_get_domain_entry[OF assms(1) r] r Op_get_domain_entry show ?thesis by auto
  next
    case (Op_write_domain_log d l)
    obtain s st' w' where r: "write_domain_log h st d l w = Inr (s, st', w')"
      using write_domain_log_total[OF ld] by blast
    from table_write_domain_log[OF assms(1) r] r Op_write_domain_log show ?thesis by auto
  next
    case Op_close_all_domain_logs
    obtain st' w' where r: "close_all_domain_logs h st w = Inr (st', w')"
      using close_all_domain_logs_total[OF ld] by blast
    from table_close_all_domain_logs[OF r] r assms(1) Op_close_all_domain_logs show ?thesis by auto
  qed
qed

lemma run_ops_loaded:
  "domain_hash st = Some tbl \<Longrightarrow> list_all (\<lambda>op. \<not> lifecycle_op op) ops \<Longrightarrow>
     \<exists>st' w' tbl'. run_ops h ops st w = Inr (st', w') \<and> domain_hash st' = Some tbl' \<and> prefix tbl tbl'"
proof (induction ops arbitrary: st w tbl)
  case Nil then show ?case by simp
next
  case (Cons op ops)
  from Cons.prems have nl: "\<not> lifecycle_op op" and rest: "list_all (\<lambda>op. \<not> lifecycle_op op) ops" by simp_all
  obtain st1 w1 tbl1 where s1: "run_op h op st w = Inr (st1, w1)" "domain_hash st1 = Some tbl1" "prefix tbl tbl1"
    using run_op_loaded[OF Cons.prems(1) nl, where h=h and w=w] by blast
  obtain st' w' tbl' where s2: "run_ops h ops st1 w1 = Inr (st', w')" "domain_hash st' = Some tbl'" "prefix tbl1 tbl'"
    using Cons.IH[OF s1(2) rest, where w=w1] by blast
  from s1 s2 show ?case by (auto intro: prefix_order.trans)
qed

subsection \<open>Extraction and entry creation\<close>

lemma extract_domain_from_msg_token:
  assumes "extract_domain_from_msg msg = Some d"
  shows "d \<noteq> [] \<and> length d \<le> 127"
proof -
  from assms obtain p where "d = copy_domainbuf p 0" "d \<noteq> []"
    by (auto simp: extract_domain_from_msg_def Let_def split: option.splits if_splits)
  then show ?thesis by (simp add: copy_domainbuf_eq)
qed

lemma extract_domain_verbatim:
  assumes "extract_domain ch = Some d"
  shows "d \<noteq> [] \<and> (\<exists>c. ch = Some c \<and> (switch_channel_get_variable c ''domain_name'' = Some d
                          \<or> switch_channel_get_variable c ''domain'' = Some d))"
  using assms by (auto simp: extract_domain_def zstr_def split: option.splits if_splits)

lemma open_domain_logfile_domain:
  "open_domain_logfile h e w = (s, e', w') \<Longrightarrow> domain e' = domain e \<and> logfile_path e' = logfile_path e"
  by (auto simp: open_domain_logfile_def split: prod.splits sum.splits)

lemma get_domain_entry_created:
  assumes "domain_hash st = Some tbl" "map_of tbl k = None"
    and "get_domain_entry h st (Some k) w = Inr (Some a, st', w')"
  shows "domain_hash st' = Some (tbl @ [(k, a)]) \<and> domain (pool st' ! a) = take 127 k
         \<and> logfile_path (pool st' ! a) = take 511 (log_dir h @ SWITCH_PATH_SEPARATOR h @ ''domain_'' @ k @ ''.log'')"
proof -
  obtain s e1 w1 where op: "open_domain_logfile h (new_domain_entry h k) w = (s, e1, w1)"
    by (cases "open_domain_logfile h (new_domain_entry h k) w") auto
  from open_domain_logfile_domain[OF op] have
    d: "domain e1 = take 127 k" "logfile_path e1 = take 511 (log_dir h @ SWITCH_PATH_SEPARATOR h @ ''domain_'' @ k @ ''.log'')"
    by (simp_all add: new_domain_entry_def)
  from assms op d show ?thesis
    by (cases s) (auto simp: get_domain_entry_def Let_def switch_core_hash_find_def
          switch_core_hash_insert_destructor_def filter_absent_key split: if_splits)
qed

lemma long_key_facts: "long_key \<noteq> []" "length long_key = 300"
  by (simp_all add: long_key_def)

lemma example_long_key_entry: "get_domain_entry healthy_host empty_cache_state (Some long_key) [] =
        Inr (Some 0,
             \<lparr>domain_hash = Some [(long_key, 0)], cache_entries = 1,
              switch_log_node_render_ptr = None,
              pool = [(new_domain_entry healthy_host long_key)\<lparr>log_file := Some 0, log_size := 0\<rparr>]\<rparr>,
             [Ev_open (logfile_path (new_domain_entry healthy_host long_key))
                {SWITCH_FOPEN_CREATE, SWITCH_FOPEN_READ, SWITCH_FOPEN_WRITE, SWITCH_FOPEN_APPEND},
              Ev_log SWITCH_LOG_DEBUG ''mod_logfile_domain: Created cache entry for domain: %s\<newline>''
                [S long_key]])"
    by (simp add: get_domain_entry_def switch_core_hash_find_def switch_core_hash_insert_destructor_def
          open_domain_logfile_def healthy_host_def empty_cache_state_def long_key_facts
          MAX_DOMAIN_CACHE_SIZE_def)

lemma example_text_token: "extract_domain_from_msg (Some ''call domain=foo bar'') = Some ''foo''"
  by (simp add: extract_domain_from_msg_def isspace_def)

lemma extract_domain_nonempty: "extract_domain ch \<noteq> Some []"
  by (auto simp: extract_domain_def zstr_def split: option.splits)

lemma logger_domain_nonempty: "logger_domain c y \<noteq> Some []"
proof -
  have a: "extract_domain_from_msg (Some y) \<noteq> Some []"
    using extract_domain_from_msg_token by blast
  have b: "\<And>ch. extract_domain ch \<noteq> Some []" by (rule extract_domain_nonempty)
  show ?thesis
    using a b[of "Some (the c)"]
    by (auto simp: logger_domain_def Let_def split: option.splits)
qed

subsection \<open>The full cache\<close>

lemma get_domain_entry_full:
  assumes "cache_inv st" "domain_hash st = Some tbl" "length tbl = 256" "key \<noteq> []" "key \<notin> fst ` set tbl"
  shows "get_domain_entry h st (Some key) w =
           Inr (None, st,
                switch_log_printf h SWITCH_LOG_WARNING
                  ''mod_logfile_domain: Cache full (%d domains)\<newline>'' [I 256] w)"
proof -
  from assms(1,2,3) have "cache_entries st = 256" by (simp add: cache_inv_def)
  moreover from assms(5) have "map_of tbl key = None" by (simp add: map_of_eq_None_iff)
  ultimately show ?thesis using assms(2,4)
    by (simp add: get_domain_entry_def switch_core_hash_find_def MAX_DOMAIN_CACHE_SIZE_def)
qed

lemma cache_inv_full_state: "cache_inv full_state"
proof -
  have inj: "inj_on full_key {0..<256}"
  proof (rule inj_onI)
    fix x y assume "full_key x = full_key y"
    then have "length (full_key x) = length (full_key y)" by simp
    then show "x = y" by (simp add: full_key_def)
  qed
  have d1: "distinct (map fst (map (\<lambda>i. (full_key i, i)) [0..<256]))"
    by (simp add: o_def distinct_map inj del: upt_conv_Cons)
  have d2: "distinct (map snd (map (\<lambda>i. (full_key i, i)) [0..<256]))"
    by (simp add: o_def del: upt_conv_Cons)
  have v: "list_all (\<lambda>kv. snd kv < length (pool full_state) \<and> file_lock (pool full_state ! snd kv))
             (map (\<lambda>i. (full_key i, i)) [0..<256])"
    by (auto simp: list_all_iff full_state_def simp del: upt_conv_Cons)
  have h: "domain_hash full_state = Some (map (\<lambda>i. (full_key i, i)) [0..<256])"
    "cache_entries full_state = 256"
    by (simp_all add: full_state_def)
  show ?thesis
    unfolding cache_inv_def h using d1 d2 v
    by (simp add: MAX_DOMAIN_CACHE_SIZE_def del: upt_conv_Cons map_map)
qed

lemma example_run:
  "run_ops healthy_host [Op_load, Op_get_domain_entry (Some ''acme.com'')] initial_state [] =
     Inr (\<lparr>domain_hash = Some [(''acme.com'', 0)], cache_entries = 1,
          switch_log_node_render_ptr = None,
          pool = [\<lparr>domain = ''acme.com'', log_file = Some 6, log_size = 0,
                   roll_size = DEFAULT_LIMIT,
                   logfile_path = ''/var/log/freeswitch/domain_acme.com.log'',
                   file_lock = True\<rparr>]\<rparr>,
          [Ev_log SWITCH_LOG_INFO
             ''mod_logfile_domain: switch_log_node_render not available; using fallback\<newline>'' [],
           Ev_bind,
           Ev_open ''/var/log/freeswitch/switch_mod_logfile_domain_loaded''
             {SWITCH_FOPEN_CREATE, SWITCH_FOPEN_WRITE, SWITCH_FOPEN_TRUNC},
           Ev_write 2 ''mod_logfile_domain loaded\<newline>'', Ev_close 2,
           Ev_log SWITCH_LOG_NOTICE
             ''mod_logfile_domain: Loaded successfully - Domain-specific logging enabled\<newline>'' [],
           Ev_open ''/var/log/freeswitch/domain_acme.com.log''
             {SWITCH_FOPEN_CREATE, SWITCH_FOPEN_READ, SWITCH_FOPEN_WRITE, SWITCH_FOPEN_APPEND},
           Ev_log SWITCH_LOG_DEBUG
             ''mod_logfile_domain: Created cache entry for domain: %s\<newline>'' [S ''acme.com'']])"
  by (simp add: mod_logfile_domain_load_def get_domain_entry_def switch_core_hash_find_def
        switch_core_hash_insert_destructor_def open_domain_logfile_def new_domain_entry_def
        healthy_host_def initial_state_def MAX_DOMAIN_CACHE_SIZE_def Let_def)

subsection \<open>Shutdown and examples\<close>

text \<open>The definitions a run on a concrete host unfolds.\<close>

lemmas run_defs =
  mod_logfile_domain_load_def mod_logfile_domain_shutdown_def close_all_domain_logs_def
  switch_core_hash_destroy_def cleanup_domain_entry_def write_domain_log_def
  write_domain_log_entry_def get_domain_entry_def switch_core_hash_find_def
  switch_core_hash_insert_destructor_def open_domain_logfile_def new_domain_entry_def
  initial_state_def MAX_DOMAIN_CACHE_SIZE_def DEFAULT_LIMIT_def Let_def

lemma shutdown_result:
  assumes inv: "cache_inv st" and tb: "domain_hash st = Some tbl"
  shows "mod_logfile_domain_shutdown h st w =
           Inr (SWITCH_STATUS_SUCCESS,
                st\<lparr>pool := map (\<lambda>i. if i \<in> snd ` set tbl then (pool st ! i)\<lparr>log_file := None\<rparr>
                                     else pool st ! i) [0..<length (pool st)],
                   domain_hash := None\<rparr>,
                fold (switch_file_close h) (open_handles st)
                  (switch_log_unbind_logger h
                     (switch_log_printf h SWITCH_LOG_NOTICE
                        ''mod_logfile_domain: Shutting down - %d domains cached\<newline>''
                        [I (cache_entries st)] w)))"
proof -
  define w1 where "w1 = switch_log_unbind_logger h
                     (switch_log_printf h SWITCH_LOG_NOTICE
                        ''mod_logfile_domain: Shutting down - %d domains cached\<newline>''
                        [I (cache_entries st)] w)"
  define pl where "pl = map (\<lambda>i. if i \<in> snd ` set tbl then (pool st ! i)\<lparr>log_file := None\<rparr>
                                     else pool st ! i) [0..<length (pool st)]"
  from inv tb have d: "distinct (map snd tbl)"
    and v: "\<forall>kv\<in>set tbl. snd kv < length (pool st) \<and> file_lock (pool st ! snd kv)"
    by (simp_all add: cache_inv_def list_all_iff)
  have ce: "close_entries h tbl (pool st) w1 = (pl, fold (switch_file_close h) (open_handles st) w1)"
    using close_entries_result[OF d v] tb by (simp add: pl_def open_handles_def)
  have ca: "close_all_domain_logs h st w1 =
              Inr (st\<lparr>pool := pl\<rparr>, fold (switch_file_close h) (open_handles st) w1)"
    using tb ce by (simp add: close_all_domain_logs_def)
  have closed: "\<forall>kv\<in>set tbl. log_file (pl ! snd kv) = None"
    using v by (auto simp: pl_def)
  have ds: "switch_core_hash_destroy h (st\<lparr>pool := pl\<rparr>) w2 = Inr (st\<lparr>pool := pl, domain_hash := None\<rparr>, w2)" for w2
    using tb cleanup_closed[OF closed] by (simp add: switch_core_hash_destroy_def)
  show ?thesis
    unfolding mod_logfile_domain_shutdown_def Let_def w1_def[symmetric] pl_def[symmetric]
    by (simp add: ca ds)
qed

lemma cache_inv_acme_state: "cache_inv acme_state"
  by (simp add: cache_inv_def acme_state_def MAX_DOMAIN_CACHE_SIZE_def)

lemma distinct_values_keys:
  assumes "distinct (map snd tbl)" "map_of tbl k1 = Some a" "map_of tbl k2 = Some a"
  shows "k1 = k2"
proof -
  from assms(2,3) have "(k1, a) \<in> set tbl" "(k2, a) \<in> set tbl"
    by (auto dest: map_of_SomeD)
  moreover from assms(1) have inj: "inj_on snd (set tbl)" by (simp add: distinct_map)
  ultimately have "(k1, a) = (k2, a)" using inj_onD[OF inj, of "(k1, a)" "(k2, a)"] by simp
  then show ?thesis by simp
qed

lemma example_first_call:
  "get_domain_entry healthy_host empty_cache_state (Some ''acme.com'') [] =
     Inr (Some 0,
          acme_state\<lparr>pool := [(pool acme_state ! 0)\<lparr>log_file := Some 0\<rparr>]\<rparr>,
          [Ev_open ''/var/log/freeswitch/domain_acme.com.log''
             {SWITCH_FOPEN_CREATE, SWITCH_FOPEN_READ, SWITCH_FOPEN_WRITE, SWITCH_FOPEN_APPEND},
           Ev_log SWITCH_LOG_DEBUG
             ''mod_logfile_domain: Created cache entry for domain: %s\<newline>'' [S ''acme.com'']])"
  by (simp add: get_domain_entry_def switch_core_hash_find_def switch_core_hash_insert_destructor_def
        open_domain_logfile_def new_domain_entry_def healthy_host_def empty_cache_state_def
        acme_state_def MAX_DOMAIN_CACHE_SIZE_def)

lemma cache_inv_empty_cache_state: "cache_inv empty_cache_state"
  by (simp add: cache_inv_def empty_cache_state_def MAX_DOMAIN_CACHE_SIZE_def)

lemma cache_inv_two_key_state: "cache_inv two_key_state"
  by (simp add: cache_inv_def two_key_state_def MAX_DOMAIN_CACHE_SIZE_def)

section \<open>The claims\<close>

text \<open>
  C1. The claim: when the first write fails or there is no handle, and the reopen
  succeeds but the retried write fails, the write reports failure; success is reported
  only when a write succeeded. The code at this input: on a full disk the first write
  fails, the file is closed and reopened, the second write fails too, and
  \<open>write_domain_log_entry\<close> still returns \<open>SWITCH_STATUS_SUCCESS\<close>, because line 248
  drops the status of the second \<^verbatim>\<open>switch_file_write\<close>.
\<close>

theorem retry_failure_reported_as_success:
  "write_domain_log_entry disk_full_host acme_entry ''line\<newline>'' [] =
     (SWITCH_STATUS_SUCCESS, acme_entry\<lparr>log_file := Some 2, log_size := 0\<rparr>,
      [Ev_write_failed 3 ''line\<newline>'', Ev_close 3,
       Ev_open ''/var/log/freeswitch/domain_acme.com.log''
         {SWITCH_FOPEN_CREATE, SWITCH_FOPEN_READ, SWITCH_FOPEN_WRITE, SWITCH_FOPEN_APPEND},
       Ev_write_failed 2 ''line\<newline>''])"
  by (simp add: write_domain_log_entry_def open_domain_logfile_def disk_full_host_def
        healthy_host_def acme_entry_def)

text \<open>
  C2. When the cache holds 256 entries, \<open>get_domain_entry\<close> for a key not in the table
  logs the warning and returns \<^verbatim>\<open>NULL\<close>, and the globals are exactly as before: no
  entry is evicted, the count and every entry are unchanged. Hence, from the initial
  statics and from any state that satisfies \<open>cache_inv\<close>, no sequence of calls brings the
  number of entries, or the counter, above 256.
\<close>

theorem cache_full_rejects:
  "(cache_inv st \<and> domain_hash st = Some tbl \<and> length tbl = 256 \<and> key \<noteq> [] \<and> key \<notin> fst ` set tbl \<longrightarrow>
      get_domain_entry h st (Some key) w =
        Inr (None, st,
             switch_log_printf h SWITCH_LOG_WARNING
               ''mod_logfile_domain: Cache full (%d domains)\<newline>'' [I 256] w))
   \<and> (run_ops h ops initial_state w = Inr (st', w') \<longrightarrow>
        entry_count st' \<le> 256 \<and> cache_entries st' \<le> 256)
   \<and> (cache_inv st \<and> run_ops h ops st w = Inr (st', w') \<longrightarrow>
        cache_inv st' \<and> entry_count st' \<le> 256 \<and> cache_entries st' \<le> 256)"
proof (intro conjI impI)
  assume "cache_inv st \<and> domain_hash st = Some tbl \<and> length tbl = 256 \<and> key \<noteq> [] \<and> key \<notin> fst ` set tbl"
  then show "get_domain_entry h st (Some key) w =
        Inr (None, st,
             switch_log_printf h SWITCH_LOG_WARNING
               ''mod_logfile_domain: Cache full (%d domains)\<newline>'' [I 256] w)"
    by (elim conjE) (rule get_domain_entry_full)
next
  assume r: "run_ops h ops initial_state w = Inr (st', w')"
  have "cache_inv st'" using cache_inv_run_ops[OF cache_inv_initial_state r] .
  then show "entry_count st' \<le> 256" "cache_entries st' \<le> 256"
    using cache_inv_bounds by blast+
next
  assume a: "cache_inv st \<and> run_ops h ops st w = Inr (st', w')"
  then have a1: "cache_inv st" and a2: "run_ops h ops st w = Inr (st', w')" by simp_all
  have i: "cache_inv st'" using cache_inv_run_ops[OF a1 a2] .
  then show "cache_inv st'" .
  from i show "entry_count st' \<le> 256" "cache_entries st' \<le> 256"
    using cache_inv_bounds by blast+
qed

theorem cache_full_rejects_witness:
  "length (map (\<lambda>i. (full_key i, i)) [0..<256]) = 256
   \<and> get_domain_entry healthy_host full_state (Some ''acme.com'') [] =
       Inr (None, full_state,
            [Ev_log SWITCH_LOG_WARNING ''mod_logfile_domain: Cache full (%d domains)\<newline>'' [I 256]])
   \<and> entry_count
        \<lparr>domain_hash = Some [(''acme.com'', 0)], cache_entries = 1,
         switch_log_node_render_ptr = None,
         pool = [\<lparr>domain = ''acme.com'', log_file = Some 6, log_size = 0,
                  roll_size = DEFAULT_LIMIT,
                  logfile_path = ''/var/log/freeswitch/domain_acme.com.log'',
                  file_lock = True\<rparr>]\<rparr> \<le> 256
   \<and> entry_count full_state \<le> 256"
proof -
  have len: "length (map (\<lambda>i. (full_key i, i)) [0..<256]) = 256" by simp
  have new: "''acme.com'' \<notin> fst ` set (map (\<lambda>i. (full_key i, i)) [0..<256])"
    by (auto simp: full_key_def simp del: upt_conv_Cons)
  have h: "cache_inv full_state \<and> domain_hash full_state = Some (map (\<lambda>i. (full_key i, i)) [0..<256])
           \<and> length (map (\<lambda>i. (full_key i, i)) [0..<256]) = 256 \<and> ''acme.com'' \<noteq> []
           \<and> ''acme.com'' \<notin> fst ` set (map (\<lambda>i. (full_key i, i)) [0..<256])"
    using cache_inv_full_state len new by (simp add: full_state_def del: upt_conv_Cons)
  have r0: "cache_inv full_state \<and> run_ops healthy_host [] full_state [] = Inr (full_state, [])"
    using cache_inv_full_state by simp
  note a = cache_full_rejects[THEN conjunct1, THEN mp, OF h, of healthy_host "[]"]
  note b = cache_full_rejects[THEN conjunct2, THEN conjunct1, THEN mp, OF example_run]
  note c = cache_full_rejects[THEN conjunct2, THEN conjunct2, THEN mp, OF r0]
  from a b c len show ?thesis by (simp add: healthy_host_def del: upt_conv_Cons)
qed

text \<open>
  C3. \<open>get_domain_entry\<close> is idempotent per key. While the module is loaded, once a call
  for a key has returned an entry, then after any calls other than load and shutdown a
  call for the same key returns the same entry and changes nothing; the table then
  extends the earlier table, so no binding has been removed, and it holds each key once.
  Keys are compared exactly: two different keys, also two that differ only in case,
  never share an entry.
\<close>

theorem get_domain_entry_idempotent:
  "(cache_inv st \<and> domain_hash st = Some tbl
      \<and> get_domain_entry h st (Some key) w = Inr (Some entry, st1, w1)
      \<and> list_all (\<lambda>op. \<not> lifecycle_op op) ops \<longrightarrow>
      (\<exists>st2 w2 tbl2. run_ops h ops st1 w1 = Inr (st2, w2)
          \<and> get_domain_entry h st2 (Some key) w2 = Inr (Some entry, st2, w2)
          \<and> domain_hash st2 = Some tbl2 \<and> prefix tbl tbl2
          \<and> distinct (map fst tbl2) \<and> map_of tbl2 key = Some entry))
   \<and> (cache_inv st \<and> run_ops h ops st w = Inr (st', w') \<and> domain_hash st' = Some tbl' \<longrightarrow>
        distinct (map fst tbl'))
   \<and> (cache_inv st \<and> domain_hash st = Some tbl \<and> map_of tbl k1 = Some a1 \<and> map_of tbl k2 = Some a2
        \<and> k1 \<noteq> k2 \<longrightarrow> a1 \<noteq> a2)"
proof (intro conjI impI)
  assume a: "cache_inv st \<and> domain_hash st = Some tbl
      \<and> get_domain_entry h st (Some key) w = Inr (Some entry, st1, w1)
      \<and> list_all (\<lambda>op. \<not> lifecycle_op op) ops"
  then have inv: "cache_inv st" and tb: "domain_hash st = Some tbl"
    and g: "get_domain_entry h st (Some key) w = Inr (Some entry, st1, w1)"
    and nl: "list_all (\<lambda>op. \<not> lifecycle_op op) ops" by simp_all
  have ne: "key \<noteq> []" using g by (auto simp: get_domain_entry_def)
  obtain tbl1 where t1: "domain_hash st1 = Some tbl1" "prefix tbl tbl1"
    using table_get_domain_entry[OF tb g] by blast
  have l1: "map_of tbl1 key = Some entry"
    using lookup_get_domain_entry[OF tb g] t1(1) by simp
  have inv1: "cache_inv st1" using cache_inv_get_domain_entry[OF inv g] .
  obtain st2 w2 tbl2 where r: "run_ops h ops st1 w1 = Inr (st2, w2)"
    and t2: "domain_hash st2 = Some tbl2" "prefix tbl1 tbl2"
    using run_ops_loaded[OF t1(1) nl, where h=h and w=w1] by blast
  have inv2: "cache_inv st2" using cache_inv_run_ops[OF inv1 r] .
  have l2: "map_of tbl2 key = Some entry" using prefix_map_of[OF t2(2) l1] .
  have g2: "get_domain_entry h st2 (Some key) w2 = Inr (Some entry, st2, w2)"
    using get_domain_entry_found[OF t2(1) l2 ne] .
  have d2: "distinct (map fst tbl2)" using inv2 t2(1) by (simp add: cache_inv_def)
  have p: "prefix tbl tbl2" using t1(2) t2(2) by (rule prefix_order.trans)
  from r g2 t2(1) p d2 l2
  show "\<exists>st2 w2 tbl2. run_ops h ops st1 w1 = Inr (st2, w2)
          \<and> get_domain_entry h st2 (Some key) w2 = Inr (Some entry, st2, w2)
          \<and> domain_hash st2 = Some tbl2 \<and> prefix tbl tbl2
          \<and> distinct (map fst tbl2) \<and> map_of tbl2 key = Some entry"
    by blast
next
  assume a: "cache_inv st \<and> run_ops h ops st w = Inr (st', w') \<and> domain_hash st' = Some tbl'"
  then have a1: "cache_inv st" and a2: "run_ops h ops st w = Inr (st', w')"
    and a3: "domain_hash st' = Some tbl'" by simp_all
  from cache_inv_run_ops[OF a1 a2] a3 show "distinct (map fst tbl')" by (simp add: cache_inv_def)
next
  assume a: "cache_inv st \<and> domain_hash st = Some tbl \<and> map_of tbl k1 = Some a1 \<and> map_of tbl k2 = Some a2
        \<and> k1 \<noteq> k2"
  then have a1: "cache_inv st" and a2: "domain_hash st = Some tbl" by simp_all
  from a1 a2 have d: "distinct (map snd tbl)" by (simp add: cache_inv_def)
  from a distinct_values_keys[OF d, of k1 a1 k2] show "a1 \<noteq> a2" by auto
qed

theorem get_domain_entry_idempotent_witness:
  "(\<exists>st2 w2 tbl2.
      run_ops healthy_host
        [Op_write_domain_log (Some ''Acme.com'') (Some ''x\<newline>''),
         Op_logger (Some (example_node (Some plain_channel))) SWITCH_LOG_INFO,
         Op_close_all_domain_logs]
        (acme_state\<lparr>pool := [(pool acme_state ! 0)\<lparr>log_file := Some 0\<rparr>]\<rparr>)
        [Ev_open ''/var/log/freeswitch/domain_acme.com.log''
           {SWITCH_FOPEN_CREATE, SWITCH_FOPEN_READ, SWITCH_FOPEN_WRITE, SWITCH_FOPEN_APPEND},
         Ev_log SWITCH_LOG_DEBUG
           ''mod_logfile_domain: Created cache entry for domain: %s\<newline>'' [S ''acme.com'']]
        = Inr (st2, w2)
      \<and> get_domain_entry healthy_host st2 (Some ''acme.com'') w2 = Inr (Some 0, st2, w2)
      \<and> domain_hash st2 = Some tbl2 \<and> prefix [] tbl2
      \<and> distinct (map fst tbl2) \<and> map_of tbl2 ''acme.com'' = Some 0)
   \<and> distinct (map fst [(''acme.com'', 0::nat), (''Acme.com'', 1)])
   \<and> map_of [(''acme.com'', 0::nat), (''Acme.com'', 1)] ''acme.com'' = Some 0
   \<and> map_of [(''acme.com'', 0::nat), (''Acme.com'', 1)] ''Acme.com'' = Some 1
   \<and> (0::nat) \<noteq> 1"
proof -
  have h1: "cache_inv empty_cache_state \<and> domain_hash empty_cache_state = Some []
      \<and> get_domain_entry healthy_host empty_cache_state (Some ''acme.com'') [] =
          Inr (Some 0,
               acme_state\<lparr>pool := [(pool acme_state ! 0)\<lparr>log_file := Some 0\<rparr>]\<rparr>,
               [Ev_open ''/var/log/freeswitch/domain_acme.com.log''
                  {SWITCH_FOPEN_CREATE, SWITCH_FOPEN_READ, SWITCH_FOPEN_WRITE, SWITCH_FOPEN_APPEND},
                Ev_log SWITCH_LOG_DEBUG
                  ''mod_logfile_domain: Created cache entry for domain: %s\<newline>'' [S ''acme.com'']])
      \<and> list_all (\<lambda>op. \<not> lifecycle_op op)
           [Op_write_domain_log (Some ''Acme.com'') (Some ''x\<newline>''),
            Op_logger (Some (example_node (Some plain_channel))) SWITCH_LOG_INFO,
            Op_close_all_domain_logs]"
    using cache_inv_empty_cache_state example_first_call by (simp add: empty_cache_state_def)
  have h2: "cache_inv two_key_state \<and> run_ops healthy_host [] two_key_state [] = Inr (two_key_state, [])
            \<and> domain_hash two_key_state = Some [(''acme.com'', 0), (''Acme.com'', 1)]"
    using cache_inv_two_key_state by (simp add: two_key_state_def)
  have h3: "cache_inv two_key_state
            \<and> domain_hash two_key_state = Some [(''acme.com'', 0), (''Acme.com'', 1)]
            \<and> map_of [(''acme.com'', 0::nat), (''Acme.com'', 1)] ''acme.com'' = Some 0
            \<and> map_of [(''acme.com'', 0::nat), (''Acme.com'', 1)] ''Acme.com'' = Some 1
            \<and> ''acme.com'' \<noteq> ''Acme.com''"
    using cache_inv_two_key_state by (simp add: two_key_state_def)
  note t = get_domain_entry_idempotent
  note r1 = t[THEN conjunct1, THEN mp, OF h1]
  note r2 = t[THEN conjunct2, THEN conjunct1, THEN mp, OF h2]
  note r3 = t[THEN conjunct2, THEN conjunct2, THEN mp, OF h3]
  from r1 r2 r3 h3 show ?thesis by simp
qed

text \<open>
  C4. Extraction follows a strict priority. A non-empty \<open>domain_name\<close> attribute of the
  channel is the domain, whatever the \<open>domain\<close> attribute and the text hold; failing
  that a non-empty \<open>domain\<close> attribute is, whatever the text holds; the text is scanned
  only when the channel gives nothing. In the text the first occurrence of
  \<open>domain_name=\<close> decides, wherever \<open>domain=\<close> occurs, and \<open>domain=\<close> is used only when
  \<open>domain_name=\<close> does not occur. An empty run after the marker gives no key: the result
  is never the empty string.
\<close>

theorem extraction_priority:
  "(switch_channel_get_variable ch ''domain_name'' = Some d \<and> d \<noteq> [] \<longrightarrow>
      logger_domain (Some ch) msg = Some d)
   \<and> (zstr (switch_channel_get_variable ch ''domain_name'')
        \<and> switch_channel_get_variable ch ''domain'' = Some d \<and> d \<noteq> [] \<longrightarrow>
      logger_domain (Some ch) msg = Some d)
   \<and> (zstr (extract_domain c) \<and> msg \<noteq> [] \<longrightarrow>
      logger_domain c msg = extract_domain_from_msg (Some msg))
   \<and> ((\<forall>k<length pre. \<not> prefix ''domain_name='' (drop k (pre @ ''domain_name='' @ rest))) \<longrightarrow>
      extract_domain_from_msg (Some (pre @ ''domain_name='' @ rest)) =
        (if take 127 (takeWhile (\<lambda>c. \<not> isspace c) rest) = [] then None
         else Some (take 127 (takeWhile (\<lambda>c. \<not> isspace c) rest))))
   \<and> ((\<forall>k\<le>length (pre @ ''domain='' @ rest). \<not> prefix ''domain_name='' (drop k (pre @ ''domain='' @ rest)))
        \<and> (\<forall>k<length pre. \<not> prefix ''domain='' (drop k (pre @ ''domain='' @ rest))) \<longrightarrow>
      extract_domain_from_msg (Some (pre @ ''domain='' @ rest)) =
        (if take 127 (takeWhile (\<lambda>c. \<not> isspace c) rest) = [] then None
         else Some (take 127 (takeWhile (\<lambda>c. \<not> isspace c) rest))))
   \<and> extract_domain_from_msg x \<noteq> Some []
   \<and> logger_domain c y \<noteq> Some []"
proof (intro conjI impI)
  assume "switch_channel_get_variable ch ''domain_name'' = Some d \<and> d \<noteq> []"
  then show "logger_domain (Some ch) msg = Some d"
    by (simp add: logger_domain_def extract_domain_def zstr_def)
next
  assume "zstr (switch_channel_get_variable ch ''domain_name'')
        \<and> switch_channel_get_variable ch ''domain'' = Some d \<and> d \<noteq> []"
  then show "logger_domain (Some ch) msg = Some d"
    by (simp add: logger_domain_def extract_domain_def zstr_def)
next
  assume a: "zstr (extract_domain c) \<and> msg \<noteq> []"
  have "extract_domain c = None"
    using a extract_domain_nonempty[of c] by (cases "extract_domain c") (auto simp: zstr_def)
  then have "(case c of None \<Rightarrow> None | Some ch \<Rightarrow> extract_domain (Some ch)) = None"
    by (cases c) auto
  with a show "logger_domain c msg = extract_domain_from_msg (Some msg)"
    by (simp add: logger_domain_def zstr_def split: option.splits)
next
  assume "\<forall>k<length pre. \<not> prefix ''domain_name='' (drop k (pre @ ''domain_name='' @ rest))"
  then have "strstr (pre @ ''domain_name='' @ rest) ''domain_name='' = Some (''domain_name='' @ rest)"
    by (rule strstr_first)
  then show "extract_domain_from_msg (Some (pre @ ''domain_name='' @ rest)) =
        (if take 127 (takeWhile (\<lambda>c. \<not> isspace c) rest) = [] then None
         else Some (take 127 (takeWhile (\<lambda>c. \<not> isspace c) rest)))"
    by (simp add: extract_domain_from_msg_def copy_domainbuf_eq)
next
  assume a: "(\<forall>k\<le>length (pre @ ''domain='' @ rest). \<not> prefix ''domain_name='' (drop k (pre @ ''domain='' @ rest)))
        \<and> (\<forall>k<length pre. \<not> prefix ''domain='' (drop k (pre @ ''domain='' @ rest)))"
  then have n: "strstr (pre @ ''domain='' @ rest) ''domain_name='' = None"
    by (intro strstr_none) blast
  from a have "strstr (pre @ ''domain='' @ rest) ''domain='' = Some (''domain='' @ rest)"
    by (intro strstr_first) blast
  with n show "extract_domain_from_msg (Some (pre @ ''domain='' @ rest)) =
        (if take 127 (takeWhile (\<lambda>c. \<not> isspace c) rest) = [] then None
         else Some (take 127 (takeWhile (\<lambda>c. \<not> isspace c) rest)))"
    by (simp add: extract_domain_from_msg_def copy_domainbuf_eq)
next
  show "extract_domain_from_msg x \<noteq> Some []"
    using extract_domain_from_msg_token by blast
next
  show "logger_domain c y \<noteq> Some []" by (rule logger_domain_nonempty)
qed

theorem extraction_priority_witness:
  "logger_domain (Some acme_channel) ''call domain=text.net'' = Some ''acme.com''
   \<and> logger_domain (Some plain_channel) ''call domain=text.net'' = Some ''other.org''
   \<and> logger_domain None ''call domain=text.net'' = extract_domain_from_msg (Some ''call domain=text.net'')
   \<and> extract_domain_from_msg (Some (''a domain=x '' @ ''domain_name='' @ ''example.com more'')) = Some ''example.com''
   \<and> extract_domain_from_msg (Some (''b domain_name= '' @ ''domain_name='' @ ''late'')) = None
   \<and> extract_domain_from_msg (Some (''see '' @ ''domain='' @ ''foo'' @ [CHR 0x09] @ ''bar'')) = Some ''foo''"
proof -
  have 1: "switch_channel_get_variable acme_channel ''domain_name'' = Some ''acme.com'' \<and> ''acme.com'' \<noteq> []"
    by (simp add: acme_channel_def)
  have 2: "zstr (switch_channel_get_variable plain_channel ''domain_name'')
        \<and> switch_channel_get_variable plain_channel ''domain'' = Some ''other.org'' \<and> ''other.org'' \<noteq> []"
    by (simp add: plain_channel_def zstr_def)
  have 3: "zstr (extract_domain None) \<and> ''call domain=text.net'' \<noteq> []"
    by (simp add: extract_domain_def zstr_def)
  have 4: "\<forall>k<length ''a domain=x ''. \<not> prefix ''domain_name='' (drop k (''a domain=x '' @ ''domain_name='' @ ''example.com more''))"
    by (simp add: less_Suc_eq)
  have 5: "(\<forall>k\<le>length (''see '' @ ''domain='' @ (''foo'' @ [CHR 0x09] @ ''bar'')).
             \<not> prefix ''domain_name='' (drop k (''see '' @ ''domain='' @ (''foo'' @ [CHR 0x09] @ ''bar''))))
        \<and> (\<forall>k<length ''see ''. \<not> prefix ''domain='' (drop k (''see '' @ ''domain='' @ (''foo'' @ [CHR 0x09] @ ''bar''))))"
    by (simp add: less_Suc_eq le_Suc_eq)
  have 6: "\<forall>k<length ''b ''. \<not> prefix ''domain_name='' (drop k (''b '' @ ''domain_name='' @ '' domain_name=late''))"
    by (simp add: less_Suc_eq)
  note t = extraction_priority
  show ?thesis
    using t[THEN conjunct1, rule_format, OF 1, of "''call domain=text.net''"]
      t[THEN conjunct2, THEN conjunct1, rule_format, OF 2, of "''call domain=text.net''"]
      t[THEN conjunct2, THEN conjunct2, THEN conjunct1, rule_format, OF 3]
      t[where pre="''a domain=x ''" and rest="''example.com more''",
        THEN conjunct2, THEN conjunct2, THEN conjunct2, THEN conjunct1, THEN mp, OF 4]
      t[where pre="''b ''" and rest="'' domain_name=late''",
        THEN conjunct2, THEN conjunct2, THEN conjunct2, THEN conjunct1, THEN mp, OF 6]
      t[where pre="''see ''" and rest="''foo'' @ [CHR 0x09] @ ''bar''",
        THEN conjunct2, THEN conjunct2, THEN conjunct2, THEN conjunct2, THEN conjunct1, THEN mp, OF 5]
    by (simp add: isspace_def)
qed

text \<open>
  C5, as stated: every extracted key, from the structured context or from the text, has
  at most 127 characters. It fails for the structured context: \<open>extract_domain\<close> returns
  the attribute itself, here 300 characters long.
\<close>

theorem context_key_not_truncated:
  "extract_domain (Some long_domain_channel) = Some long_key \<and> \<not> length long_key \<le> 127"
  by (simp add: extract_domain_def long_domain_channel_def zstr_def long_key_facts)

text \<open>
  C5, amended: a key extracted from the text is not empty and has at most 127
  characters; a key from the structured context is the attribute \<open>domain_name\<close> or
  \<open>domain\<close> itself, not cut; when an entry is created for a key, the table holds the key
  whole, the entry's \<open>domain\<close> field holds its first 127 characters and its path has at
  most 511 characters.
\<close>

theorem key_truncation:
  "(extract_domain_from_msg msg = Some d \<longrightarrow> d \<noteq> [] \<and> length d \<le> 127)
   \<and> (extract_domain (Some ch) = Some d \<longrightarrow>
        switch_channel_get_variable ch ''domain_name'' = Some d
        \<or> switch_channel_get_variable ch ''domain'' = Some d)
   \<and> (domain_hash st = Some tbl \<and> map_of tbl k = None
        \<and> get_domain_entry h st (Some k) w = Inr (Some a, st', w') \<longrightarrow>
        domain_hash st' = Some (tbl @ [(k, a)]) \<and> domain (pool st' ! a) = take 127 k
        \<and> length (domain (pool st' ! a)) \<le> 127 \<and> length (logfile_path (pool st' ! a)) \<le> 511)"
proof (intro conjI impI)
  assume "extract_domain_from_msg msg = Some d"
  then show "d \<noteq> []" "length d \<le> 127" using extract_domain_from_msg_token by blast+
next
  assume "extract_domain (Some ch) = Some d"
  then show "switch_channel_get_variable ch ''domain_name'' = Some d
        \<or> switch_channel_get_variable ch ''domain'' = Some d"
    using extract_domain_verbatim by fastforce
next
  assume a: "domain_hash st = Some tbl \<and> map_of tbl k = None
        \<and> get_domain_entry h st (Some k) w = Inr (Some a, st', w')"
  then have a1: "domain_hash st = Some tbl" and a2: "map_of tbl k = None"
    and a3: "get_domain_entry h st (Some k) w = Inr (Some a, st', w')" by simp_all
  note c = get_domain_entry_created[OF a1 a2 a3]
  from c show "domain_hash st' = Some (tbl @ [(k, a)])" by simp
  from c show "domain (pool st' ! a) = take 127 k" by simp
  from c show "length (domain (pool st' ! a)) \<le> 127" by simp
  from c show "length (logfile_path (pool st' ! a)) \<le> 511" by simp
qed

theorem key_truncation_witness:
  "length ''foo'' \<le> 127
   \<and> switch_channel_get_variable long_domain_channel ''domain_name'' = Some long_key
   \<and> length long_key = 300
   \<and> domain ((new_domain_entry healthy_host long_key)\<lparr>log_file := Some 0, log_size := 0\<rparr>) = take 127 long_key
   \<and> length (domain ((new_domain_entry healthy_host long_key)\<lparr>log_file := Some 0, log_size := 0\<rparr>)) \<le> 127"
proof -
  have a: "length ''foo'' \<le> 127"
    using key_truncation[THEN conjunct1, rule_format, OF example_text_token] by simp
  have e2: "extract_domain (Some long_domain_channel) = Some long_key"
    by (simp add: extract_domain_def long_domain_channel_def zstr_def long_key_facts)
  have b: "switch_channel_get_variable long_domain_channel ''domain_name'' = Some long_key
           \<or> switch_channel_get_variable long_domain_channel ''domain'' = Some long_key"
    using key_truncation[THEN conjunct2, THEN conjunct1, rule_format, OF e2] .
  have b': "switch_channel_get_variable long_domain_channel ''domain'' = None"
    by (simp add: long_domain_channel_def)
  have t: "domain_hash empty_cache_state = Some []" "map_of [] long_key = None"
    by (simp_all add: empty_cache_state_def)
  have c: "domain (pool \<lparr>domain_hash = Some [(long_key, 0)], cache_entries = 1,
              switch_log_node_render_ptr = None,
              pool = [(new_domain_entry healthy_host long_key)\<lparr>log_file := Some 0, log_size := 0\<rparr>]\<rparr> ! 0) = take 127 long_key
          \<and> length (domain (pool \<lparr>domain_hash = Some [(long_key, 0)], cache_entries = 1,
              switch_log_node_render_ptr = None,
              pool = [(new_domain_entry healthy_host long_key)\<lparr>log_file := Some 0, log_size := 0\<rparr>]\<rparr> ! 0)) \<le> 127"
    using key_truncation[THEN conjunct2, THEN conjunct2, rule_format, OF conjI[OF t(1) conjI[OF t(2) example_long_key_entry]]]
    by simp
  from a b b' c show ?thesis by (simp add: long_key_facts)
qed

text \<open>
  C6. The claim: the captured key is the run of characters after the marker that are
  non-whitespace and printable. The code at this input: the loop of lines 206 to 208
  tests only \<^verbatim>\<open>isspace\<close>, so the escape character 0x1B, which is neither
  whitespace nor printable, is copied into the key and the capture runs on to the next
  space.
\<close>

theorem capture_keeps_unprintable:
  "extract_domain_from_msg (Some (''call for domain=acme'' @ [CHR 0x1B] @ ''[0m.com done'')) =
     Some (''acme'' @ [CHR 0x1B] @ ''[0m.com'')
   \<and> \<not> isprint (CHR 0x1B) \<and> \<not> isspace (CHR 0x1B)"
  by (simp add: extract_domain_from_msg_def isspace_def isprint_def)

text \<open>
  C7. \<open>log_size\<close> grows by the written length exactly on successful writes. On a host
  whose failed writes report nothing written: when the first write succeeds with \<open>n\<close>
  bytes, \<open>log_size\<close> has grown by \<open>n\<close>; when the first attempt fails and the reopen
  fails, the call returns failure and \<open>log_size\<close> is as before; when the first attempt
  fails and the reopen succeeds, \<open>log_size\<close> is the size of the file at the reopen plus
  the bytes of the retried write if that succeeded, and plus nothing if it failed.
\<close>

theorem log_size_accounting:
  assumes contract:
    "\<forall>f d w0. \<not> fst (fst (switch_file_write h f d w0)) \<longrightarrow> snd (fst (switch_file_write h f d w0)) = 0"
  shows "(\<forall>f n w1. log_file entry = Some f \<and> switch_file_write h f ld w = ((True, n), w1) \<longrightarrow>
            write_domain_log_entry h entry ld w =
              (SWITCH_STATUS_SUCCESS, entry\<lparr>log_size := log_size entry + n\<rparr>, w1))
       \<and> (\<forall>w2 stat w3. first_write_failed h entry ld w w2
              \<and> switch_file_open h (logfile_path entry)
                   {SWITCH_FOPEN_CREATE, SWITCH_FOPEN_READ, SWITCH_FOPEN_WRITE, SWITCH_FOPEN_APPEND} w2
                 = (Inl stat, w3) \<longrightarrow>
            fst (write_domain_log_entry h entry ld w) = SWITCH_STATUS_FALSE
            \<and> fst (snd (write_domain_log_entry h entry ld w)) = entry\<lparr>log_file := None\<rparr>)
       \<and> (\<forall>w2 f2 w3 ok n w4. first_write_failed h entry ld w w2
              \<and> switch_file_open h (logfile_path entry)
                   {SWITCH_FOPEN_CREATE, SWITCH_FOPEN_READ, SWITCH_FOPEN_WRITE, SWITCH_FOPEN_APPEND} w2
                 = (Inr f2, w3)
              \<and> switch_file_write h f2 ld w3 = ((ok, n), w4) \<longrightarrow>
            write_domain_log_entry h entry ld w =
              (SWITCH_STATUS_SUCCESS,
               entry\<lparr>log_file := Some f2,
                     log_size := switch_file_get_size h f2 w3 + (if ok then n else 0)\<rparr>, w4))"
proof (intro conjI allI impI)
  fix f n w1
  assume "log_file entry = Some f \<and> switch_file_write h f ld w = ((True, n), w1)"
  then show "write_domain_log_entry h entry ld w =
              (SWITCH_STATUS_SUCCESS, entry\<lparr>log_size := log_size entry + n\<rparr>, w1)"
    by (simp add: write_domain_log_entry_def)
next
  fix w2 stat w3
  assume a: "first_write_failed h entry ld w w2
              \<and> switch_file_open h (logfile_path entry)
                   {SWITCH_FOPEN_CREATE, SWITCH_FOPEN_READ, SWITCH_FOPEN_WRITE, SWITCH_FOPEN_APPEND} w2
                 = (Inl stat, w3)"
  then have op: "open_domain_logfile h (entry\<lparr>log_file := None\<rparr>) w2 =
      (SWITCH_STATUS_FALSE, entry\<lparr>log_file := None\<rparr>,
       switch_log_printf h SWITCH_LOG_ERROR ''mod_logfile_domain: Failed to open %s (status=%d)\<newline>''
         [S (logfile_path entry), I stat] w3)"
    by (simp add: open_domain_logfile_def)
  from a op show "fst (write_domain_log_entry h entry ld w) = SWITCH_STATUS_FALSE"
    by (cases "log_file entry"; cases "switch_file_write h (the (log_file entry)) ld w")
       (auto simp: write_domain_log_entry_def first_write_failed_def Let_def split: bool.splits)
  from a op show "fst (snd (write_domain_log_entry h entry ld w)) = entry\<lparr>log_file := None\<rparr>"
    by (cases "log_file entry"; cases "switch_file_write h (the (log_file entry)) ld w")
       (auto simp: write_domain_log_entry_def first_write_failed_def Let_def split: bool.splits)
next
  fix w2 f2 w3 ok n w4
  assume a: "first_write_failed h entry ld w w2
              \<and> switch_file_open h (logfile_path entry)
                   {SWITCH_FOPEN_CREATE, SWITCH_FOPEN_READ, SWITCH_FOPEN_WRITE, SWITCH_FOPEN_APPEND} w2
                 = (Inr f2, w3)
              \<and> switch_file_write h f2 ld w3 = ((ok, n), w4)"
  then have op: "open_domain_logfile h (entry\<lparr>log_file := None\<rparr>) w2 =
      (SWITCH_STATUS_SUCCESS, entry\<lparr>log_file := Some f2, log_size := switch_file_get_size h f2 w3\<rparr>, w3)"
    by (simp add: open_domain_logfile_def)
  have n0: "\<not> ok \<Longrightarrow> n = 0" using a contract[rule_format, of f2 ld w3] by simp
  from a op n0 show "write_domain_log_entry h entry ld w =
              (SWITCH_STATUS_SUCCESS,
               entry\<lparr>log_file := Some f2,
                     log_size := switch_file_get_size h f2 w3 + (if ok then n else 0)\<rparr>, w4)"
    by (cases "log_file entry"; cases "switch_file_write h (the (log_file entry)) ld w")
       (auto simp: write_domain_log_entry_def first_write_failed_def Let_def split: bool.splits)
qed


theorem log_size_accounting_witness:
  "log_size acme_entry = 100
   \<and> write_domain_log_entry healthy_host acme_entry ''line\<newline>'' [] =
       (SWITCH_STATUS_SUCCESS, acme_entry\<lparr>log_size := 105\<rparr>, [Ev_write 3 ''line\<newline>''])
   \<and> fst (write_domain_log_entry no_open_host acme_entry ''line\<newline>'' []) = SWITCH_STATUS_FALSE
   \<and> log_size (fst (snd (write_domain_log_entry no_open_host acme_entry ''line\<newline>'' []))) = 100
   \<and> fst (snd (write_domain_log_entry stale_handle_host acme_entry ''line\<newline>'' [])) =
       acme_entry\<lparr>log_file := Some 2, log_size := 5\<rparr>
   \<and> fst (snd (write_domain_log_entry disk_full_host acme_entry ''line\<newline>'' [])) =
       acme_entry\<lparr>log_file := Some 2, log_size := 0\<rparr>"
proof -
  have c1: "\<forall>f d w0. \<not> fst (fst (switch_file_write healthy_host f d w0)) \<longrightarrow>
              snd (fst (switch_file_write healthy_host f d w0)) = 0"
    by (simp add: healthy_host_def)
  have c2: "\<forall>f d w0. \<not> fst (fst (switch_file_write no_open_host f d w0)) \<longrightarrow>
              snd (fst (switch_file_write no_open_host f d w0)) = 0"
    by (simp add: no_open_host_def stale_handle_host_def healthy_host_def)
  have c3: "\<forall>f d w0. \<not> fst (fst (switch_file_write stale_handle_host f d w0)) \<longrightarrow>
              snd (fst (switch_file_write stale_handle_host f d w0)) = 0"
    by (simp add: stale_handle_host_def healthy_host_def)
  have c4: "\<forall>f d w0. \<not> fst (fst (switch_file_write disk_full_host f d w0)) \<longrightarrow>
              snd (fst (switch_file_write disk_full_host f d w0)) = 0"
    by (simp add: disk_full_host_def healthy_host_def)
  have h1: "log_file acme_entry = Some 3 \<and>
            switch_file_write healthy_host 3 ''line\<newline>'' [] = ((True, 5), [Ev_write 3 ''line\<newline>''])"
    by (simp add: acme_entry_def healthy_host_def)
  have h2: "first_write_failed no_open_host acme_entry ''line\<newline>'' []
              [Ev_write_failed 3 ''line\<newline>'', Ev_close 3]
            \<and> switch_file_open no_open_host (logfile_path acme_entry)
                 {SWITCH_FOPEN_CREATE, SWITCH_FOPEN_READ, SWITCH_FOPEN_WRITE, SWITCH_FOPEN_APPEND}
                 [Ev_write_failed 3 ''line\<newline>'', Ev_close 3]
               = (Inl 13, [Ev_write_failed 3 ''line\<newline>'', Ev_close 3,
                           Ev_open_failed (logfile_path acme_entry)])"
    by (simp add: first_write_failed_def acme_entry_def no_open_host_def stale_handle_host_def
          healthy_host_def)
  have h3: "first_write_failed stale_handle_host acme_entry ''line\<newline>'' []
              [Ev_write_failed 3 ''line\<newline>'', Ev_close 3]
            \<and> switch_file_open stale_handle_host (logfile_path acme_entry)
                 {SWITCH_FOPEN_CREATE, SWITCH_FOPEN_READ, SWITCH_FOPEN_WRITE, SWITCH_FOPEN_APPEND}
                 [Ev_write_failed 3 ''line\<newline>'', Ev_close 3]
               = (Inr 2, [Ev_write_failed 3 ''line\<newline>'', Ev_close 3,
                          Ev_open (logfile_path acme_entry)
                            {SWITCH_FOPEN_CREATE, SWITCH_FOPEN_READ, SWITCH_FOPEN_WRITE, SWITCH_FOPEN_APPEND}])
            \<and> switch_file_write stale_handle_host 2 ''line\<newline>''
                 [Ev_write_failed 3 ''line\<newline>'', Ev_close 3,
                  Ev_open (logfile_path acme_entry)
                    {SWITCH_FOPEN_CREATE, SWITCH_FOPEN_READ, SWITCH_FOPEN_WRITE, SWITCH_FOPEN_APPEND}]
               = ((True, 5),
                  [Ev_write_failed 3 ''line\<newline>'', Ev_close 3,
                   Ev_open (logfile_path acme_entry)
                     {SWITCH_FOPEN_CREATE, SWITCH_FOPEN_READ, SWITCH_FOPEN_WRITE, SWITCH_FOPEN_APPEND},
                   Ev_write 2 ''line\<newline>''])"
    by (simp add: first_write_failed_def acme_entry_def stale_handle_host_def healthy_host_def)
  have h4: "first_write_failed disk_full_host acme_entry ''line\<newline>'' []
              [Ev_write_failed 3 ''line\<newline>'', Ev_close 3]
            \<and> switch_file_open disk_full_host (logfile_path acme_entry)
                 {SWITCH_FOPEN_CREATE, SWITCH_FOPEN_READ, SWITCH_FOPEN_WRITE, SWITCH_FOPEN_APPEND}
                 [Ev_write_failed 3 ''line\<newline>'', Ev_close 3]
               = (Inr 2, [Ev_write_failed 3 ''line\<newline>'', Ev_close 3,
                          Ev_open (logfile_path acme_entry)
                            {SWITCH_FOPEN_CREATE, SWITCH_FOPEN_READ, SWITCH_FOPEN_WRITE, SWITCH_FOPEN_APPEND}])
            \<and> switch_file_write disk_full_host 2 ''line\<newline>''
                 [Ev_write_failed 3 ''line\<newline>'', Ev_close 3,
                  Ev_open (logfile_path acme_entry)
                    {SWITCH_FOPEN_CREATE, SWITCH_FOPEN_READ, SWITCH_FOPEN_WRITE, SWITCH_FOPEN_APPEND}]
               = ((False, 0),
                  [Ev_write_failed 3 ''line\<newline>'', Ev_close 3,
                   Ev_open (logfile_path acme_entry)
                     {SWITCH_FOPEN_CREATE, SWITCH_FOPEN_READ, SWITCH_FOPEN_WRITE, SWITCH_FOPEN_APPEND},
                   Ev_write_failed 2 ''line\<newline>''])"
    by (simp add: first_write_failed_def acme_entry_def disk_full_host_def healthy_host_def)
  have sz: "log_size acme_entry = 100"
    "switch_file_get_size stale_handle_host = (\<lambda>f w. 0)"
    "switch_file_get_size disk_full_host = (\<lambda>f w. 0)"
    by (simp_all add: acme_entry_def stale_handle_host_def disk_full_host_def healthy_host_def)
  note r1 = log_size_accounting[OF c1, THEN conjunct1, rule_format, OF h1]
  note r2 = log_size_accounting[OF c2, THEN conjunct2, THEN conjunct1, rule_format, OF h2]
  note r3 = log_size_accounting[OF c3, THEN conjunct2, THEN conjunct2, rule_format, OF h3]
  note r4 = log_size_accounting[OF c4, THEN conjunct2, THEN conjunct2, rule_format, OF h4]
  from r1 r2 r3 r4 sz show ?thesis by simp
qed

text \<open>
  C8. The logging callback never hands a failure to the event source. While the module
  is loaded (or on a host whose hash API bears a null table), for every event, be it
  null, without a domain, refused by the full cache or lost to a failed write, the
  callback returns \<open>SWITCH_STATUS_SUCCESS\<close>.
\<close>

theorem logger_returns_success:
  assumes "domain_hash st \<noteq> None \<or> \<not> null_hash_faults h"
  shows "\<exists>st' w'. mod_logfile_domain_logger h st node level w = Inr (SWITCH_STATUS_SUCCESS, st', w')"
  using assms by (rule logger_total)

theorem logger_returns_success_witness:
  "domain_hash empty_cache_state \<noteq> None \<and> domain_hash full_state \<noteq> None
   \<and> (\<exists>st' w'. mod_logfile_domain_logger healthy_host empty_cache_state None SWITCH_LOG_INFO []
                  = Inr (SWITCH_STATUS_SUCCESS, st', w'))
   \<and> (\<exists>st' w'. mod_logfile_domain_logger healthy_host empty_cache_state
                    (Some (example_node None)) SWITCH_LOG_INFO []
                  = Inr (SWITCH_STATUS_SUCCESS, st', w'))
   \<and> (\<exists>st' w'. mod_logfile_domain_logger healthy_host full_state
                    (Some (example_node (Some acme_channel))) SWITCH_LOG_INFO []
                  = Inr (SWITCH_STATUS_SUCCESS, st', w'))
   \<and> (\<exists>st' w'. mod_logfile_domain_logger no_open_host empty_cache_state
                    (Some (example_node (Some acme_channel))) SWITCH_LOG_INFO []
                  = Inr (SWITCH_STATUS_SUCCESS, st', w'))"
proof -
  have a: "domain_hash empty_cache_state \<noteq> None \<or> \<not> null_hash_faults healthy_host"
    and b: "domain_hash full_state \<noteq> None \<or> \<not> null_hash_faults healthy_host"
    and c: "domain_hash empty_cache_state \<noteq> None \<or> \<not> null_hash_faults no_open_host"
    by (simp_all add: empty_cache_state_def full_state_def)
  show ?thesis
    using logger_returns_success[OF a, of None SWITCH_LOG_INFO "[]"]
      logger_returns_success[OF a, of "Some (example_node None)" SWITCH_LOG_INFO "[]"]
      logger_returns_success[OF b, of "Some (example_node (Some acme_channel))" SWITCH_LOG_INFO "[]"]
      logger_returns_success[OF c, of "Some (example_node (Some acme_channel))" SWITCH_LOG_INFO "[]"]
    by (simp add: empty_cache_state_def full_state_def)
qed

text \<open>
  C9, as stated: after shutdown every cached handle is closed, and a later write without
  a new load is rejected or does nothing rather than crash. The second part fails. After
  a load, one line and a shutdown the table pointer is null and \<open>write_domain_log\<close> has
  no guard for that: on a host whose hash API faults on a null table the write faults,
  and on a host whose hash API bears it the write opens the file again under a new entry
  and writes the line, returning success.
\<close>

theorem write_after_shutdown:
  "run_ops healthy_host
     [Op_load, Op_write_domain_log (Some ''acme.com'') (Some ''one\<newline>''), Op_shutdown]
     initial_state [] = Inr (shut_state, shut_world)
   \<and> run_ops tolerant_host
     [Op_load, Op_write_domain_log (Some ''acme.com'') (Some ''one\<newline>''), Op_shutdown]
     initial_state [] = Inr (shut_state, shut_world)
   \<and> write_domain_log healthy_host shut_state (Some ''acme.com'') (Some ''two\<newline>'') shut_world
       = Inl Null_hash_table
   \<and> write_domain_log tolerant_host shut_state (Some ''acme.com'') (Some ''two\<newline>'') shut_world
       = Inr (SWITCH_STATUS_SUCCESS,
              shut_state\<lparr>cache_entries := 2,
                pool := pool shut_state @
                  [\<lparr>domain = ''acme.com'', log_file = Some 12, log_size = 4,
                    roll_size = DEFAULT_LIMIT,
                    logfile_path = ''/var/log/freeswitch/domain_acme.com.log'',
                    file_lock = True\<rparr>]\<rparr>,
              shut_world @
                [Ev_open ''/var/log/freeswitch/domain_acme.com.log''
                   {SWITCH_FOPEN_CREATE, SWITCH_FOPEN_READ, SWITCH_FOPEN_WRITE, SWITCH_FOPEN_APPEND},
                 Ev_log SWITCH_LOG_DEBUG
                   ''mod_logfile_domain: Created cache entry for domain: %s\<newline>'' [S ''acme.com''],
                 Ev_write 12 ''two\<newline>''])"
proof (intro conjI)
  show "run_ops healthy_host
     [Op_load, Op_write_domain_log (Some ''acme.com'') (Some ''one\<newline>''), Op_shutdown]
     initial_state [] = Inr (shut_state, shut_world)"
    by (simp add: run_defs healthy_host_def shut_state_def shut_world_def)
  show "run_ops tolerant_host
     [Op_load, Op_write_domain_log (Some ''acme.com'') (Some ''one\<newline>''), Op_shutdown]
     initial_state [] = Inr (shut_state, shut_world)"
    by (simp add: run_defs tolerant_host_def healthy_host_def shut_state_def shut_world_def)
  show "write_domain_log healthy_host shut_state (Some ''acme.com'') (Some ''two\<newline>'') shut_world
       = Inl Null_hash_table"
    by (simp add: run_defs healthy_host_def shut_state_def)
  show "write_domain_log tolerant_host shut_state (Some ''acme.com'') (Some ''two\<newline>'') shut_world
       = Inr (SWITCH_STATUS_SUCCESS,
              shut_state\<lparr>cache_entries := 2,
                pool := pool shut_state @
                  [\<lparr>domain = ''acme.com'', log_file = Some 12, log_size = 4,
                    roll_size = DEFAULT_LIMIT,
                    logfile_path = ''/var/log/freeswitch/domain_acme.com.log'',
                    file_lock = True\<rparr>]\<rparr>,
              shut_world @
                [Ev_open ''/var/log/freeswitch/domain_acme.com.log''
                   {SWITCH_FOPEN_CREATE, SWITCH_FOPEN_READ, SWITCH_FOPEN_WRITE, SWITCH_FOPEN_APPEND},
                 Ev_log SWITCH_LOG_DEBUG
                   ''mod_logfile_domain: Created cache entry for domain: %s\<newline>'' [S ''acme.com''],
                 Ev_write 12 ''two\<newline>''])"
    by (simp add: run_defs tolerant_host_def healthy_host_def shut_state_def shut_world_def)
qed

text \<open>
  C9, amended: when the module is loaded, shutdown returns success; every handle open in
  the cache is closed, once, in the table's order, after the logger is unbound; every
  cached entry's handle is then empty; and the table pointer is null. Nothing is said of
  a write after shutdown.
\<close>

theorem shutdown_closes_handles:
  "cache_inv st \<and> domain_hash st = Some tbl \<longrightarrow>
     (\<exists>st'. mod_logfile_domain_shutdown h st w =
              Inr (SWITCH_STATUS_SUCCESS, st',
                   fold (switch_file_close h) (open_handles st)
                     (switch_log_unbind_logger h
                        (switch_log_printf h SWITCH_LOG_NOTICE
                           ''mod_logfile_domain: Shutting down - %d domains cached\<newline>''
                           [I (cache_entries st)] w)))
            \<and> domain_hash st' = None
            \<and> length (pool st') = length (pool st)
            \<and> (\<forall>kv\<in>set tbl. log_file (pool st' ! snd kv) = None))"
proof
  assume a: "cache_inv st \<and> domain_hash st = Some tbl"
  then have a1: "cache_inv st" and a2: "domain_hash st = Some tbl" by simp_all
  from a1 a2 have v: "\<forall>kv\<in>set tbl. snd kv < length (pool st)"
    by (simp add: cache_inv_def list_all_iff)
  have r: "mod_logfile_domain_shutdown h st w =
           Inr (SWITCH_STATUS_SUCCESS,
                st\<lparr>pool := map (\<lambda>i. if i \<in> snd ` set tbl then (pool st ! i)\<lparr>log_file := None\<rparr>
                                     else pool st ! i) [0..<length (pool st)],
                   domain_hash := None\<rparr>,
                fold (switch_file_close h) (open_handles st)
                  (switch_log_unbind_logger h
                     (switch_log_printf h SWITCH_LOG_NOTICE
                        ''mod_logfile_domain: Shutting down - %d domains cached\<newline>''
                        [I (cache_entries st)] w)))"
    by (rule shutdown_result[OF a1 a2])
  show "\<exists>st'. mod_logfile_domain_shutdown h st w =
              Inr (SWITCH_STATUS_SUCCESS, st',
                   fold (switch_file_close h) (open_handles st)
                     (switch_log_unbind_logger h
                        (switch_log_printf h SWITCH_LOG_NOTICE
                           ''mod_logfile_domain: Shutting down - %d domains cached\<newline>''
                           [I (cache_entries st)] w)))
            \<and> domain_hash st' = None
            \<and> length (pool st') = length (pool st)
            \<and> (\<forall>kv\<in>set tbl. log_file (pool st' ! snd kv) = None)"
    unfolding r using v by auto
qed

theorem shutdown_closes_handles_witness:
  "cache_inv acme_state \<and> domain_hash acme_state = Some [(''acme.com'', 0)]
   \<and> (\<exists>st'. mod_logfile_domain_shutdown healthy_host acme_state [] =
              Inr (SWITCH_STATUS_SUCCESS, st',
                   [Ev_log SWITCH_LOG_NOTICE
                      ''mod_logfile_domain: Shutting down - %d domains cached\<newline>'' [I 1],
                    Ev_unbind, Ev_close 6])
            \<and> domain_hash st' = None \<and> log_file (pool st' ! 0) = None)"
proof -
  have h: "cache_inv acme_state \<and> domain_hash acme_state = Some [(''acme.com'', 0)]"
    using cache_inv_acme_state by (simp add: acme_state_def)
  have w: "fold (switch_file_close healthy_host) (open_handles acme_state)
             (switch_log_unbind_logger healthy_host
                (switch_log_printf healthy_host SWITCH_LOG_NOTICE
                   ''mod_logfile_domain: Shutting down - %d domains cached\<newline>''
                   [I (cache_entries acme_state)] []))
           = [Ev_log SWITCH_LOG_NOTICE
                ''mod_logfile_domain: Shutting down - %d domains cached\<newline>'' [I 1],
              Ev_unbind, Ev_close 6]"
    by (simp add: open_handles_def acme_state_def healthy_host_def map_filter_simps)
  from shutdown_closes_handles[THEN mp, OF h, of healthy_host "[]", unfolded w] h
  show ?thesis by auto
qed

text \<open>
  C10. When the renderer is not resolved, or fails on the event, the rendered message
  is empty and the text is never scanned: the domain is the one the channel gives; an
  event whose channel gives no non-empty domain attribute is dropped, with the state and
  the world as they were; and a line that is written carries \<open>(message)\<close> in the place of
  the message.
\<close>

theorem unrendered_message:
  assumes "switch_log_node_render_ptr st = None
           \<or> (\<exists>r buf. switch_log_node_render_ptr st = Some r \<and> r node = (False, buf))"
  shows "logger_rendered_msg st node = []
       \<and> logger_domain (logger_channel node) (logger_rendered_msg st node)
           = extract_domain (logger_channel node)
       \<and> (zstr (extract_domain (logger_channel node)) \<longrightarrow>
            mod_logfile_domain_logger h st (Some node) level w = Inr (SWITCH_STATUS_SUCCESS, st, w))
       \<and> (\<forall>d. extract_domain (logger_channel node) = Some d
              \<and> (\<forall>f. node_file node = Some f \<longrightarrow> strstr f ''mod_logfile_domain'' = None) \<longrightarrow>
            mod_logfile_domain_logger h st (Some node) level w =
              (case write_domain_log h st (Some d)
                      (Some (take 2047
                         (strftime_now h w @ '' ['' @ switch_log_level2str h level @ ''] [''
                          @ (case node_file node of None \<Rightarrow> ''unknown'' | Some f \<Rightarrow> f) @ '':''
                          @ (case node_func node of None \<Rightarrow> ''unknown'' | Some f \<Rightarrow> f) @ '':''
                          @ string_of_int (node_line node) @ ''] '' @ ''(message)''
                          @ (case logger_channel node of
                               None \<Rightarrow> []
                             | Some ch \<Rightarrow>
                                 '' ['' @ (case switch_channel_get_uuid ch of
                                            None \<Rightarrow> ''unknown'' | Some u \<Rightarrow> u) @ '']'')
                          @ ''\<newline>''))) w of
                 Inl flt \<Rightarrow> Inl flt
               | Inr (status, st1, w1) \<Rightarrow> Inr (SWITCH_STATUS_SUCCESS, st1, w1)))"
proof -
  have r: "logger_rendered_msg st node = []"
    using assms by (auto simp: logger_rendered_msg_def)
  have dch: "(case logger_channel node of None \<Rightarrow> None | Some ch \<Rightarrow> extract_domain (Some ch))
             = extract_domain (logger_channel node)"
    by (cases "logger_channel node") (simp_all add: extract_domain_def)
  have d: "logger_domain (logger_channel node) [] = extract_domain (logger_channel node)"
    by (simp add: logger_domain_def dch)
  have drop: "zstr (extract_domain (logger_channel node)) \<Longrightarrow>
            mod_logfile_domain_logger h st (Some node) level w = Inr (SWITCH_STATUS_SUCCESS, st, w)"
    by (simp add: mod_logfile_domain_logger_def Let_def r d)
  have wr: "mod_logfile_domain_logger h st (Some node) level w =
              (case write_domain_log h st (Some d')
                      (Some (logger_log_line h w level node (logger_channel node) [])) w of
                 Inl flt \<Rightarrow> Inl flt
               | Inr (status, st1, w1) \<Rightarrow> Inr (SWITCH_STATUS_SUCCESS, st1, w1))"
    if "extract_domain (logger_channel node) = Some d'"
      and "\<forall>f. node_file node = Some f \<longrightarrow> strstr f ''mod_logfile_domain'' = None" for d'
  proof -
    have ne: "\<not> zstr (Some d')" using that(1) extract_domain_nonempty[of "logger_channel node"]
      by (auto simp: zstr_def)
    have nf: "\<not> (case node_file node of None \<Rightarrow> False | Some f \<Rightarrow> strstr f ''mod_logfile_domain'' \<noteq> None)"
      using that(2) by (cases "node_file node") auto
    show ?thesis
      using ne nf that(1) by (simp add: mod_logfile_domain_logger_def Let_def r d)
  qed
  show ?thesis
    using r d drop wr by (simp add: logger_log_line_def)
qed

theorem unrendered_message_witness:
  "mod_logfile_domain_logger healthy_host failing_render_state (Some (example_node None))
     SWITCH_LOG_INFO [] = Inr (SWITCH_STATUS_SUCCESS, failing_render_state, [])
   \<and> mod_logfile_domain_logger healthy_host empty_cache_state
       (Some (example_node (Some acme_channel))) SWITCH_LOG_INFO [] =
       (case write_domain_log healthy_host empty_cache_state (Some ''acme.com'')
               (Some ''2024-05-01 12:00:00 [INFO] [switch_core.c:domain=text.net:42] (message) [uuid-1]\<newline>'')
               [] of
          Inl flt \<Rightarrow> Inl flt
        | Inr (status, st1, w1) \<Rightarrow> Inr (SWITCH_STATUS_SUCCESS, st1, w1))"
proof -
  have h1: "switch_log_node_render_ptr failing_render_state = None
           \<or> (\<exists>r buf. switch_log_node_render_ptr failing_render_state = Some r
                  \<and> r (example_node None) = (False, buf))"
    by (simp add: failing_render_state_def)
  have z: "zstr (extract_domain (logger_channel (example_node None)))"
    by (simp add: extract_domain_def logger_channel_def example_node_def zstr_def)
  have h2: "switch_log_node_render_ptr empty_cache_state = None
           \<or> (\<exists>r buf. switch_log_node_render_ptr empty_cache_state = Some r
                  \<and> r (example_node (Some acme_channel)) = (False, buf))"
    by (simp add: empty_cache_state_def)
  have d: "extract_domain (logger_channel (example_node (Some acme_channel))) = Some ''acme.com''
           \<and> (\<forall>f. node_file (example_node (Some acme_channel)) = Some f \<longrightarrow>
                  strstr f ''mod_logfile_domain'' = None)"
    by (simp add: extract_domain_def logger_channel_def example_node_def acme_channel_def zstr_def)
  note r1 = unrendered_message[OF h1, THEN conjunct2, THEN conjunct2, THEN conjunct1, rule_format, OF z,
      of healthy_host SWITCH_LOG_INFO "[]"]
  note r2 = unrendered_message[OF h2, THEN conjunct2, THEN conjunct2, THEN conjunct2, THEN spec, THEN mp, OF d,
      of healthy_host SWITCH_LOG_INFO "[]"]
  have line: "take 2047
         (strftime_now healthy_host [] @ '' ['' @ switch_log_level2str healthy_host SWITCH_LOG_INFO @ ''] [''
          @ (case node_file (example_node (Some acme_channel)) of None \<Rightarrow> ''unknown'' | Some f \<Rightarrow> f) @ '':''
          @ (case node_func (example_node (Some acme_channel)) of None \<Rightarrow> ''unknown'' | Some f \<Rightarrow> f) @ '':''
          @ string_of_int (node_line (example_node (Some acme_channel))) @ ''] '' @ ''(message)''
          @ (case logger_channel (example_node (Some acme_channel)) of
               None \<Rightarrow> []
             | Some ch \<Rightarrow>
                 '' ['' @ (case switch_channel_get_uuid ch of
                            None \<Rightarrow> ''unknown'' | Some u \<Rightarrow> u) @ '']'')
          @ ''\<newline>'')
       = ''2024-05-01 12:00:00 [INFO] [switch_core.c:domain=text.net:42] (message) [uuid-1]\<newline>''"
    by (simp add: healthy_host_def example_node_def logger_channel_def acme_channel_def string_of_int_def)
  from r1 r2[unfolded line] show ?thesis by simp
qed

end
